theory Spec2Isabelle
  imports Main
begin

section \<open>Data model of the room store (index.js, lines 18-27)\<close>

text \<open>
  A mark is one of the two strings 'X' and 'O' (the bare name \<open>O\<close> is relation
  composition in HOL, hence the prefix). A board cell is \<open>null\<close> or a mark: \<open>None\<close>
  stands for \<open>null\<close>.
\<close>

datatype mark = Mark_X | Mark_O

type_synonym cell = "mark option"

text \<open>
  A player object \<open>{ id, playerId, nickname, symbol, points }\<close>. The field \<open>id\<close> of the
  source is the socket id of the seat's connection, or \<open>null\<close> once the seat is
  disconnected; it is called \<open>socketId\<close> here (the name the source gives it in every
  payload), since \<open>id\<close> is the identity function of HOL. A socket id is a non-empty
  string chosen by the transport, so \<open>!!p.id\<close> is \<open>p.id !== null\<close>. The counters
  \<open>points\<close> and \<open>round\<close> are JavaScript numbers that start at 0 and 1 and only grow by
  1; they are exact integers far beyond any run, and are natural numbers here.
\<close>

record player =
  socketId :: "string option"
  playerId :: string
  nickname :: string
  symbol :: mark
  points :: nat

text \<open>
  A room. \<open>readySet\<close> is a JavaScript \<open>Set\<close>: a duplicate-free sequence in insertion
  order. \<open>cleanupTimer\<close> holds the handle returned by \<open>setTimeout\<close>, or \<open>None\<close> for
  \<open>undefined\<close>. The field \<open>round\<close> is called \<open>round_n\<close> (\<open>round\<close> is a HOL constant).
\<close>

record room =
  players :: "player list"
  board :: "cell list"
  currentTurn :: mark
  round_n :: nat
  readySet :: "string list"
  cleanupTimer :: "nat option"

text \<open>
  The process state: the global \<open>rooms\<close> map (a JavaScript \<open>Map\<close>, which iterates in
  insertion order, hence an association list with distinct keys), and the timer queue of
  the event loop: the pending timeouts, each with its handle and the \<open>roomId\<close> its
  callback has captured; \<open>next_timer\<close> is the next unused handle.
\<close>

record server =
  rooms :: "(string \<times> room) list"
  timers :: "(nat \<times> string) list"
  next_timer :: nat

definition init_server :: server where
  "init_server = \<lparr>rooms = [], timers = [], next_timer = 0\<rparr>"

subsection \<open>The operations of a JavaScript Map, Set and Array that the code uses\<close>

definition map_get :: "'k \<Rightarrow> ('k \<times> 'v) list \<Rightarrow> 'v option" where
  "map_get k m = map_of m k"

text \<open>\<open>Map.set\<close> replaces the value of a present key where it stands and appends a new key.\<close>

fun map_set :: "'k \<Rightarrow> 'v \<Rightarrow> ('k \<times> 'v) list \<Rightarrow> ('k \<times> 'v) list" where
  "map_set k v [] = [(k, v)]"
| "map_set k v ((k', v') # m) = (if k' = k then (k, v) # m else (k', v') # map_set k v m)"

definition map_delete :: "'k \<Rightarrow> ('k \<times> 'v) list \<Rightarrow> ('k \<times> 'v) list" where
  "map_delete k m = filter (\<lambda>kv. fst kv \<noteq> k) m"

definition set_add :: "'a \<Rightarrow> 'a list \<Rightarrow> 'a list" where
  "set_add x xs = (if x \<in> set xs then xs else xs @ [x])"

text \<open>
  \<open>const p = xs.find(P); if (p) p.f = ...\<close> changes the first element that satisfies
  \<open>P\<close>, in place.
\<close>

fun update_first :: "('a \<Rightarrow> bool) \<Rightarrow> ('a \<Rightarrow> 'a) \<Rightarrow> 'a list \<Rightarrow> 'a list" where
  "update_first P f [] = []"
| "update_first P f (x # xs) = (if P x then f x # xs else x # update_first P f xs)"

text \<open>\<open>board[i]\<close>: \<open>None\<close> is \<open>undefined\<close> (no such element), \<open>Some c\<close> the cell.\<close>

definition board_at :: "cell list \<Rightarrow> nat \<Rightarrow> cell option" where
  "board_at b i = (if i < length b then Some (b ! i) else None)"

section \<open>Helpers (index.js, lines 29-87)\<close>

text \<open>
  \<open>generateRoomId\<close>: \<open>Math.random().toString(36).slice(2, 8).toUpperCase()\<close>. The random
  number is the environment's choice; the function takes its base-36 rendering
  (\<open>0\<close>, or \<open>0.\<close> followed by digits \<open>0-9a-z\<close>) as a parameter.
\<close>

definition toUpperCase :: "string \<Rightarrow> string" where
  "toUpperCase s =
     map (\<lambda>c. case map_of (zip ''abcdefghijklmnopqrstuvwxyz'' ''ABCDEFGHIJKLMNOPQRSTUVWXYZ'') c of
                 Some u \<Rightarrow> u | None \<Rightarrow> c) s"

definition slice :: "nat \<Rightarrow> nat \<Rightarrow> string \<Rightarrow> string" where
  "slice i j s = take (j - i) (drop i s)"

definition generateRoomId :: "string \<Rightarrow> string" where
  "generateRoomId rnd36 = toUpperCase (slice 2 8 rnd36)"

record win_result =
  winner :: "mark option"
  line :: "nat list option"

definition wins :: "(nat \<times> nat \<times> nat) list" where
  "wins = [(0,1,2), (3,4,5), (6,7,8),
           (0,3,6), (1,4,7), (2,5,8),
           (0,4,8), (2,4,6)]"

text \<open>
  The loop of \<open>checkWinner\<close> over the remaining triples. The test
  \<open>board[a] && board[a] === board[b] && board[a] === board[c]\<close> holds when \<open>board[a]\<close> is
  a mark (\<open>null\<close> and \<open>undefined\<close> are falsy) and the two other cells are the same mark.
\<close>

fun checkWinner_loop :: "cell list \<Rightarrow> (nat \<times> nat \<times> nat) list \<Rightarrow> win_result" where
  "checkWinner_loop brd [] = \<lparr>winner = None, line = None\<rparr>"
| "checkWinner_loop brd ((a, b, c) # ws) =
     (case board_at brd a of
        Some (Some m) \<Rightarrow>
          if board_at brd a = board_at brd b \<and> board_at brd a = board_at brd c
          then \<lparr>winner = Some m, line = Some [a, b, c]\<rparr>
          else checkWinner_loop brd ws
      | _ \<Rightarrow> checkWinner_loop brd ws)"

definition checkWinner :: "cell list \<Rightarrow> win_result" where
  "checkWinner brd = checkWinner_loop brd wins"

record snapshot =
  snap_roomId :: string
  snap_round :: nat
  snap_currentTurn :: mark
  snap_board :: "cell list"
  snap_players :: "player list"

text \<open>
  The payload \<open>players.map(p => ({playerId, nickname, symbol, points, socketId: p.id ?? null}))\<close>
  carries the five fields of each player, so it is the player list itself.
\<close>

definition roomSnapshot :: "string \<Rightarrow> (string \<times> room) list \<Rightarrow> snapshot option" where
  "roomSnapshot roomId rs =
     (case map_get roomId rs of
        None \<Rightarrow> None
      | Some r \<Rightarrow> Some \<lparr>snap_roomId = roomId, snap_round = round_n r,
                        snap_currentTurn = currentTurn r, snap_board = board r,
                        snap_players = players r\<rparr>)"

definition activePlayersCount :: "room \<Rightarrow> nat" where
  "activePlayersCount r = length (filter (\<lambda>p. socketId p \<noteq> None) (players r))"

text \<open>
  \<open>clearTimeout\<close> removes a pending timeout from the queue; on \<open>undefined\<close>, or on a
  handle that is no longer pending, it does nothing.
\<close>

definition clearTimeout :: "nat option \<Rightarrow> (nat \<times> string) list \<Rightarrow> (nat \<times> string) list" where
  "clearTimeout h ts = (case h of None \<Rightarrow> ts | Some t \<Rightarrow> filter (\<lambda>e. fst e \<noteq> t) ts)"

text \<open>
  \<open>scheduleRoomCleanup\<close>: \<open>setTimeout\<close> queues the callback under a fresh handle. The
  delay (five minutes) is not modelled: a pending timeout may fire at any later step.
\<close>

definition scheduleRoomCleanup :: "string \<Rightarrow> server \<Rightarrow> server" where
  "scheduleRoomCleanup roomId s =
     (case map_get roomId (rooms s) of
        None \<Rightarrow> s
      | Some r \<Rightarrow>
          (case cleanupTimer r of
             Some t \<Rightarrow> s
           | None \<Rightarrow>
               s\<lparr>rooms := map_set roomId (r\<lparr>cleanupTimer := Some (next_timer s)\<rparr>) (rooms s),
                 timers := timers s @ [(next_timer s, roomId)],
                 next_timer := Suc (next_timer s)\<rparr>))"

text \<open>The callback given to \<open>setTimeout\<close> (lines 75-86), run when the timeout fires.\<close>

definition cleanup_callback :: "string \<Rightarrow> server \<Rightarrow> server" where
  "cleanup_callback roomId s =
     (case map_get roomId (rooms s) of
        None \<Rightarrow> s
      | Some r \<Rightarrow>
          if activePlayersCount r = 0
          then s\<lparr>rooms := map_delete roomId (rooms s)\<rparr>
          else s\<lparr>rooms := map_set roomId (r\<lparr>cleanupTimer := None\<rparr>) (rooms s),
                 timers := clearTimeout (cleanupTimer r) (timers s)\<rparr>)"

text \<open>
  The event loop firing the timeout with handle \<open>t\<close>: it leaves the queue and its
  callback runs. A handle that is not pending does not fire.
\<close>

definition timer_fire :: "nat \<Rightarrow> server \<Rightarrow> server" where
  "timer_fire t s =
     (case map_of (timers s) t of
        None \<Rightarrow> s
      | Some roomId \<Rightarrow> cleanup_callback roomId (s\<lparr>timers := filter (\<lambda>e. fst e \<noteq> t) (timers s)\<rparr>))"

section \<open>Socket handlers (index.js, lines 89-275)\<close>

text \<open>
  What a handler sends: the reply passed to the request's callback \<open>cb\<close>, and the
  broadcasts \<open>io.to(roomId).emit(...)\<close>, each with its room id first. Which sockets are
  subscribed to a room (\<open>socket.join\<close>) belongs to the transport and is not modelled.
\<close>

datatype emit =
    Reply_failure string
  | Reply_created string
  | Reply_success
  | Reply_snapshot "snapshot option"
  | Start_game string "snapshot option"
  | Update_board string "cell list" mark nat
  | Round_over string "mark option" "nat list option" nat "player list" "cell list" nat
  | New_round string nat "cell list" mark "player list"
  | Score_reset string "player list"
  | Player_left string string string mark

text \<open>
  The \<open>index\<close> of a move is any JavaScript value: an integral number, a number that is
  not integral (a fraction, \<open>NaN\<close>, an infinity), or a value that is not a number.
\<close>

datatype js_index = JInt int | JNonInt | JNotNumber

definition create_room :: "string \<Rightarrow> string \<Rightarrow> string \<Rightarrow> string \<Rightarrow> server \<Rightarrow> server \<times> emit list" where
  "create_room sock nick pid rnd36 s =
     (if nick = [] \<or> pid = []
      then (s, [Reply_failure ''nickname and playerId are required''])
      else
        let roomId = generateRoomId rnd36 in
        (s\<lparr>rooms := map_set roomId
              \<lparr>players = [\<lparr>socketId = Some sock, playerId = pid, nickname = nick,
                           symbol = Mark_X, points = 0\<rparr>],
               board = replicate 9 None,
               currentTurn = Mark_X,
               round_n = 1,
               readySet = [],
               cleanupTimer = None\<rparr> (rooms s)\<rparr>,
         [Reply_created roomId]))"

definition join_room :: "string \<Rightarrow> string \<Rightarrow> string \<Rightarrow> string \<Rightarrow> server \<Rightarrow> server \<times> emit list" where
  "join_room sock nick pid roomId s =
     (case map_get roomId (rooms s) of
        None \<Rightarrow> (s, [Reply_failure ''Room not found''])
      | Some r \<Rightarrow>
          if nick = [] \<or> pid = []
          then (s, [Reply_failure ''nickname and playerId are required''])
          else if length (players r) \<ge> 2 then (s, [Reply_failure ''Room is full''])
          else
            let rs = map_set roomId
                       (r\<lparr>players := players r @
                            [\<lparr>socketId = Some sock, playerId = pid, nickname = nick,
                              symbol = Mark_O, points = 0\<rparr>]\<rparr>) (rooms s)
            in (s\<lparr>rooms := rs\<rparr>, [Start_game roomId (roomSnapshot roomId rs), Reply_success]))"

definition rejoin_room :: "string \<Rightarrow> string \<Rightarrow> string \<Rightarrow> server \<Rightarrow> server \<times> emit list" where
  "rejoin_room sock roomId pid s =
     (case map_get roomId (rooms s) of
        None \<Rightarrow> (s, [Reply_failure ''Room not found''])
      | Some r \<Rightarrow>
          (case find (\<lambda>p. playerId p = pid) (players r) of
             None \<Rightarrow> (s, [Reply_failure ''Seat not found''])
           | Some p \<Rightarrow>
               let rs = map_set roomId
                          (r\<lparr>players := update_first (\<lambda>p. playerId p = pid)
                                            (\<lambda>p. p\<lparr>socketId := Some sock\<rparr>) (players r),
                             cleanupTimer := None\<rparr>) (rooms s)
               in (s\<lparr>rooms := rs, timers := clearTimeout (cleanupTimer r) (timers s)\<rparr>,
                   [Reply_snapshot (roomSnapshot roomId rs)])))"

text \<open>
  \<open>make-move\<close>. The guards, in the order of the source. A number that is not integral
  may pass or fail the range guard, and then \<open>room.board[index]\<close> is \<open>undefined\<close>, which
  is not \<open>null\<close>: the handler returns either way.
\<close>

definition make_move :: "string \<Rightarrow> string \<Rightarrow> js_index \<Rightarrow> server \<Rightarrow> server \<times> emit list" where
  "make_move sock roomId index s =
     (case map_get roomId (rooms s) of
        None \<Rightarrow> (s, [])
      | Some r \<Rightarrow>
          (case find (\<lambda>p. socketId p = Some sock) (players r) of
             None \<Rightarrow> (s, [])
           | Some p \<Rightarrow>
               (case index of
                  JNotNumber \<Rightarrow> (s, [])
                | JNonInt \<Rightarrow> (s, [])
                | JInt i \<Rightarrow>
                    if i < 0 \<or> i > 8 then (s, [])
                    else if board_at (board r) (nat i) \<noteq> Some None then (s, [])
                    else if currentTurn r \<noteq> symbol p then (s, [])
                    else
                      let brd = (board r)[nat i := Some (symbol p)];
                          turn = (if symbol p = Mark_X then Mark_O else Mark_X);
                          res = checkWinner brd;
                          isDraw = (winner res = None \<and> list_all (\<lambda>c. c \<noteq> None) brd);
                          upd = Update_board roomId brd turn (nat i)
                      in
                        if winner res \<noteq> None \<or> isDraw
                        then
                          let ps = (case winner res of
                                      Some w \<Rightarrow> update_first (\<lambda>q. symbol q = w)
                                                  (\<lambda>q. q\<lparr>points := points q + 1\<rparr>) (players r)
                                    | None \<Rightarrow> players r)
                          in (s\<lparr>rooms := map_set roomId
                                   (r\<lparr>players := ps, board := brd, currentTurn := turn,
                                      readySet := []\<rparr>) (rooms s)\<rparr>,
                              [upd, Round_over roomId (winner res) (line res) (round_n r) ps
                                      brd (nat i)])
                        else (s\<lparr>rooms := map_set roomId
                                   (r\<lparr>board := brd, currentTurn := turn\<rparr>) (rooms s)\<rparr>,
                              [upd]))))"

definition ready_next_round :: "string \<Rightarrow> string \<Rightarrow> server \<Rightarrow> server \<times> emit list" where
  "ready_next_round sock roomId s =
     (case map_get roomId (rooms s) of
        None \<Rightarrow> (s, [])
      | Some r \<Rightarrow>
          let acks = set_add sock (readySet r) in
          if length acks \<ge> 2
          then
            let rnd = round_n r + 1;
                brd = replicate 9 None;
                turn = (if rnd mod 2 = 1 then Mark_X else Mark_O)
            in (s\<lparr>rooms := map_set roomId
                     (r\<lparr>board := brd, currentTurn := turn, round_n := rnd, readySet := []\<rparr>)
                     (rooms s)\<rparr>,
                [New_round roomId rnd brd turn (players r)])
          else (s\<lparr>rooms := map_set roomId (r\<lparr>readySet := acks\<rparr>) (rooms s)\<rparr>, []))"

definition reset_scores :: "string \<Rightarrow> server \<Rightarrow> server \<times> emit list" where
  "reset_scores roomId s =
     (case map_get roomId (rooms s) of
        None \<Rightarrow> (s, [])
      | Some r \<Rightarrow>
          let ps = map (\<lambda>p. p\<lparr>points := 0\<rparr>) (players r)
          in (s\<lparr>rooms := map_set roomId (r\<lparr>players := ps\<rparr>) (rooms s)\<rparr>,
              [Score_reset roomId ps]))"

text \<open>
  \<open>disconnect\<close>: the loop over \<open>rooms.entries()\<close>, on the entries still to visit. It stops
  (\<open>break\<close>) at the first room that has a seat with the socket's id.
\<close>

fun disconnect_loop :: "string \<Rightarrow> (string \<times> room) list \<Rightarrow> server \<Rightarrow> server \<times> emit list" where
  "disconnect_loop sock [] s = (s, [])"
| "disconnect_loop sock ((roomId, r) # rest) s =
     (case find (\<lambda>p. socketId p = Some sock) (players r) of
        None \<Rightarrow> disconnect_loop sock rest s
      | Some p \<Rightarrow>
          let r' = r\<lparr>players := update_first (\<lambda>p. socketId p = Some sock)
                                  (\<lambda>p. p\<lparr>socketId := None\<rparr>) (players r)\<rparr>;
              s' = s\<lparr>rooms := map_set roomId r' (rooms s)\<rparr>
          in (if activePlayersCount r' = 0 then scheduleRoomCleanup roomId s' else s',
              [Player_left roomId (playerId p) (nickname p) (symbol p)]))"

definition disconnect :: "string \<Rightarrow> server \<Rightarrow> server \<times> emit list" where
  "disconnect sock s = disconnect_loop sock (rooms s) s"

section \<open>Runs of the server\<close>

datatype event =
    Create_room string string string string
  | Join_room string string string string
  | Rejoin_room string string string
  | Make_move string string js_index
  | Ready_next_round string string
  | Reset_scores string
  | Disconnect string
  | Timeout nat

fun step :: "event \<Rightarrow> server \<Rightarrow> server \<times> emit list" where
  "step (Create_room sock nick pid rnd36) s = create_room sock nick pid rnd36 s"
| "step (Join_room sock nick pid roomId) s = join_room sock nick pid roomId s"
| "step (Rejoin_room sock roomId pid) s = rejoin_room sock roomId pid s"
| "step (Make_move sock roomId index) s = make_move sock roomId index s"
| "step (Ready_next_round sock roomId) s = ready_next_round sock roomId s"
| "step (Reset_scores roomId) s = reset_scores roomId s"
| "step (Disconnect sock) s = disconnect sock s"
| "step (Timeout t) s = (timer_fire t s, [])"

text \<open>A run handles the events one after the other and collects what was sent.\<close>

fun run :: "event list \<Rightarrow> server \<Rightarrow> server \<times> emit list" where
  "run [] s = (s, [])"
| "run (e # es) s =
     (case step e s of (s', out) \<Rightarrow> (case run es s' of (s'', out') \<Rightarrow> (s'', out @ out')))"

inductive reachable :: "server \<Rightarrow> bool" where
  reachable_init: "reachable init_server"
| reachable_step: "reachable s \<Longrightarrow> reachable (fst (step e s))"

section \<open>The properties, in the words of the specification\<close>

subsection \<open>Win detector\<close>

text \<open>
  A triple holds three equal non-empty marks. The 8 fixed triples: the rows, the columns
  and the two diagonals of the 3x3 grid, in this order.
\<close>

definition three_equal :: "cell list \<Rightarrow> nat \<times> nat \<times> nat \<Rightarrow> bool" where
  "three_equal brd t =
     (case t of (a, b, c) \<Rightarrow> brd ! a \<noteq> None \<and> brd ! a = brd ! b \<and> brd ! a = brd ! c)"

definition fixed_lines :: "(nat \<times> nat \<times> nat) list" where
  "fixed_lines = map (\<lambda>r. (3 * r, 3 * r + 1, 3 * r + 2)) [0, 1, 2]
               @ map (\<lambda>c. (c, c + 3, c + 6)) [0, 1, 2]
               @ [(0, 4, 8), (2, 4, 6)]"

subsection \<open>Moves\<close>

text \<open>A move is accepted when the handler passes its guards and broadcasts update-board.\<close>

fun is_update_board :: "emit \<Rightarrow> bool" where
  "is_update_board (Update_board roomId brd turn i) = True"
| "is_update_board e = False"

definition move_accepted :: "emit list \<Rightarrow> bool" where
  "move_accepted out = list_ex is_update_board out"

text \<open>
  An example state: a room created by socket s1 (the random number 1/4096 renders as
  0.00be29 in base 36) and joined by socket s2.
\<close>

definition two_seated :: server where
  "two_seated = fst (run [Create_room ''s1'' ''A'' ''p1'' ''0.00be29'',
                          Join_room ''s2'' ''B'' ''p2'' ''00BE29''] init_server)"

subsection \<open>Example runs\<close>

text \<open>
  A first round won by X on the top row, in a room created by socket s1 and joined by
  socket s2; the same run followed by both players closing their connections, or by one
  acknowledgment; and one socket that has created two rooms (the random numbers 1/4096
  and 3/4096 render as 0.00be29 and 0.00y66r in base 36).
\<close>

definition won_game :: "event list" where
  "won_game = [Create_room ''s1'' ''A'' ''p1'' ''0.00be29'',
               Join_room ''s2'' ''B'' ''p2'' ''00BE29'',
               Make_move ''s1'' ''00BE29'' (JInt 0),
               Make_move ''s2'' ''00BE29'' (JInt 3),
               Make_move ''s1'' ''00BE29'' (JInt 1),
               Make_move ''s2'' ''00BE29'' (JInt 4),
               Make_move ''s1'' ''00BE29'' (JInt 2)]"

definition vacated :: server where
  "vacated = fst (run (won_game @ [Disconnect ''s1'', Disconnect ''s2'']) init_server)"

definition one_ack :: server where
  "one_ack = fst (run (won_game @ [Ready_next_round ''s1'' ''00BE29'']) init_server)"

definition two_rooms :: server where
  "two_rooms = fst (run [Create_room ''s1'' ''A'' ''p1'' ''0.00be29'',
                         Create_room ''s1'' ''A'' ''p1'' ''0.00y66r''] init_server)"

subsection \<open>Well-formed states\<close>

text \<open>
  What every state reached from the empty store satisfies: the keys of the Map are
  distinct; every room has its seats marked X, or X then O, a board of 9 cells and at
  most one recorded acknowledgment; the pending timeouts have distinct handles, all
  below the next unused one.
\<close>

definition room_ok :: "room \<Rightarrow> bool" where
  "room_ok r =
     ((map symbol (players r) = [Mark_X] \<or> map symbol (players r) = [Mark_X, Mark_O])
      \<and> length (board r) = 9
      \<and> distinct (readySet r) \<and> length (readySet r) \<le> 1)"

definition server_ok :: "server \<Rightarrow> bool" where
  "server_ok s =
     (distinct (map fst (rooms s))
      \<and> list_all (\<lambda>kr. room_ok (snd kr)) (rooms s)
      \<and> distinct (map fst (timers s))
      \<and> list_all (\<lambda>e. fst e < next_timer s) (timers s))"

subsection \<open>Example: a second player who joins under the first player's playerId\<close>

definition same_playerId :: server where
  "same_playerId = fst (run [Create_room ''s1'' ''A'' ''p1'' ''0.00be29'',
                             Join_room ''s2'' ''B'' ''p1'' ''00BE29''] init_server)"

subsection \<open>Round over\<close>

fun is_round_over :: "emit \<Rightarrow> bool" where
  "is_round_over (Round_over roomId w l n ps brd i) = True"
| "is_round_over e = False"

text \<open>
  Example runs: after X has won the first round, O plays the free cell 5; after X has
  won, socket s1 acknowledges and closes, the player comes back on socket s3 and
  acknowledges again.
\<close>

definition move_after_win :: "event list" where
  "move_after_win = won_game @ [Make_move ''s2'' ''00BE29'' (JInt 5)]"

definition ack_then_leave :: "event list" where
  "ack_then_leave = won_game @ [Ready_next_round ''s1'' ''00BE29'', Disconnect ''s1'']"

definition ack_twice :: "event list" where
  "ack_twice = ack_then_leave @ [Rejoin_room ''s3'' ''00BE29'' ''p1'',
                                 Ready_next_round ''s3'' ''00BE29'']"

subsection \<open>Idle cleanup\<close>

text \<open>
  The pending cleanup actions of a room: the pending timeouts whose callback has captured
  its id. A pending timeout is the room's own when the room is live and its
  \<open>cleanupTimer\<close> field holds the handle.
\<close>

definition pending_for :: "string \<Rightarrow> server \<Rightarrow> (nat \<times> string) list" where
  "pending_for roomId s = filter (\<lambda>e. snd e = roomId) (timers s)"

definition timers_ok :: "server \<Rightarrow> bool" where
  "timers_ok s =
     list_all (\<lambda>e. case map_get (snd e) (rooms s) of
                     None \<Rightarrow> False
                   | Some r \<Rightarrow> cleanupTimer r = Some (fst e)) (timers s)"

text \<open>
  The runs in which no room is created under an id for which a cleanup action is
  pending (the generator does not look at the store, so other runs exist).
\<close>

definition fresh_id :: "event \<Rightarrow> server \<Rightarrow> bool" where
  "fresh_id e s =
     (case e of
        Create_room sock nick pid rnd36 \<Rightarrow>
          nick = [] \<or> pid = [] \<or> pending_for (generateRoomId rnd36) s = []
      | _ \<Rightarrow> True)"

inductive reachable_fresh :: "server \<Rightarrow> bool" where
  reachable_fresh_init: "reachable_fresh init_server"
| reachable_fresh_step: "reachable_fresh s \<Longrightarrow> fresh_id e s \<Longrightarrow> reachable_fresh (fst (step e s))"

fun fresh_run :: "event list \<Rightarrow> server \<Rightarrow> bool" where
  "fresh_run [] s = True"
| "fresh_run (e # es) s = (fresh_id e s \<and> fresh_run es (fst (step e s)))"

text \<open>
  Example: socket s1 creates room 00BE29 and closes; socket s2 then creates a room while
  the random number repeats, and closes too.
\<close>

definition reused_id :: "event list" where
  "reused_id = [Create_room ''s1'' ''A'' ''p1'' ''0.00be29'', Disconnect ''s1'',
                Create_room ''s2'' ''B'' ''p2'' ''0.00be29'', Disconnect ''s2'']"

text \<open>
  Example: after the run above, the second player rejoins on socket s3 and closes again,
  and the timeout armed for the first room fires.
\<close>

definition rejoin_after_reuse :: "event list" where
  "rejoin_after_reuse = reused_id @ [Rejoin_room ''s3'' ''00BE29'' ''p2'',
                                     Disconnect ''s3'', Timeout 0]"

section \<open>Verification\<close>

subsection \<open>Win detector\<close>

lemma wins_fixed_lines: "wins = fixed_lines"
  by (simp add: wins_def fixed_lines_def)

lemma checkWinner_loop_Cons:
  assumes "a < length brd" "b < length brd" "c < length brd"
  shows "checkWinner_loop brd ((a, b, c) # ws) =
     (if three_equal brd (a, b, c) then \<lparr>winner = brd ! a, line = Some [a, b, c]\<rparr>
      else checkWinner_loop brd ws)"
proof (cases "brd ! a")
  case None
  with assms show ?thesis by (simp add: board_at_def three_equal_def)
next
  case (Some m)
  with assms show ?thesis by (auto simp: board_at_def three_equal_def)
qed

lemma checkWinner_loop_find:
  "\<forall>t \<in> set ws. case t of (a, b, c) \<Rightarrow> a < length brd \<and> b < length brd \<and> c < length brd \<Longrightarrow>
   checkWinner_loop brd ws =
     (case find (three_equal brd) ws of
        None \<Rightarrow> \<lparr>winner = None, line = None\<rparr>
      | Some (a, b, c) \<Rightarrow> \<lparr>winner = brd ! a, line = Some [a, b, c]\<rparr>)"
proof (induction ws)
  case Nil
  then show ?case by simp
next
  case (Cons t ws)
  obtain a b c where t: "t = (a, b, c)" by (cases t)
  from Cons.prems t have bnd: "a < length brd" "b < length brd" "c < length brd"
    by auto
  from Cons have IH: "checkWinner_loop brd ws =
     (case find (three_equal brd) ws of
        None \<Rightarrow> \<lparr>winner = None, line = None\<rparr>
      | Some (a, b, c) \<Rightarrow> \<lparr>winner = brd ! a, line = Some [a, b, c]\<rparr>)"
    by simp
  show ?case
    unfolding t checkWinner_loop_Cons [OF bnd] IH by simp
qed

lemma fixed_lines_in_range: "\<forall>t \<in> set fixed_lines. case t of (a, b, c) \<Rightarrow> a < 9 \<and> b < 9 \<and> c < 9"
  by (simp add: fixed_lines_def)

text \<open>
  Claim C5. On a board of 9 cells: when one of the 8 fixed triples (3 rows, 3 columns,
  2 diagonals, which are the table of the source) holds three equal non-empty marks,
  \<open>checkWinner\<close> returns the mark and the indices of the first such triple in the scan
  order rows, columns, diagonals; on every other board it returns no winner and no line.
\<close>

theorem checkWinner_first_line:
  assumes "length brd = 9"
  shows "wins = fixed_lines \<and>
    (if \<exists>t \<in> set fixed_lines. three_equal brd t
     then \<exists>i<8. three_equal brd (fixed_lines ! i)
              \<and> (\<forall>j<i. \<not> three_equal brd (fixed_lines ! j))
              \<and> (case fixed_lines ! i of (a, b, c) \<Rightarrow>
                   checkWinner brd = \<lparr>winner = brd ! a, line = Some [a, b, c]\<rparr>)
     else checkWinner brd = \<lparr>winner = None, line = None\<rparr>)"
proof -
  have len: "length fixed_lines = 8" by (simp add: fixed_lines_def)
  have loop: "checkWinner brd =
     (case find (three_equal brd) fixed_lines of
        None \<Rightarrow> \<lparr>winner = None, line = None\<rparr>
      | Some (a, b, c) \<Rightarrow> \<lparr>winner = brd ! a, line = Some [a, b, c]\<rparr>)"
    unfolding checkWinner_def wins_fixed_lines
    using fixed_lines_in_range assms by (intro checkWinner_loop_find) simp
  show ?thesis
  proof (cases "find (three_equal brd) fixed_lines")
    case None
    then have "\<not> (\<exists>t \<in> set fixed_lines. three_equal brd t)"
      unfolding find_None_iff by blast
    with None loop wins_fixed_lines show ?thesis by simp
  next
    case (Some t)
    then obtain i where i: "i < length fixed_lines" "three_equal brd (fixed_lines ! i)"
      "t = fixed_lines ! i" "\<forall>j<i. \<not> three_equal brd (fixed_lines ! j)"
      unfolding find_Some_iff by blast
    from i have ex: "\<exists>t \<in> set fixed_lines. three_equal brd t"
      using nth_mem by blast
    from Some loop i(3) have "case fixed_lines ! i of (a, b, c) \<Rightarrow>
        checkWinner brd = \<lparr>winner = brd ! a, line = Some [a, b, c]\<rparr>"
      by (simp split: prod.splits)
    with i len ex wins_fixed_lines show ?thesis by auto
  qed
qed

theorem checkWinner_first_line_witness:
  "length [Some Mark_X, Some Mark_O, Some Mark_X,
           Some Mark_O, Some Mark_X, Some Mark_O,
           Some Mark_X, None, None] = 9
   \<and> checkWinner [Some Mark_X, Some Mark_O, Some Mark_X,
                  Some Mark_O, Some Mark_X, Some Mark_O,
                  Some Mark_X, None, None] = \<lparr>winner = Some Mark_X, line = Some [2, 4, 6]\<rparr>"
proof -
  let ?b = "[Some Mark_X, Some Mark_O, Some Mark_X,
             Some Mark_O, Some Mark_X, Some Mark_O,
             Some Mark_X, None, None]"
  have h: "length ?b = 9" by simp
  have e: "checkWinner ?b = \<lparr>winner = Some Mark_X, line = Some [2, 4, 6]\<rparr>"
    by (simp add: checkWinner_def wins_def board_at_def)
  from checkWinner_first_line [OF h] h e show ?thesis by blast
qed

subsection \<open>The store as a map\<close>

lemma map_get_map_set_same: "map_get k (map_set k v m) = Some v"
  by (induction m) (auto simp: map_get_def)

lemma map_get_map_set_other: "k' \<noteq> k \<Longrightarrow> map_get k' (map_set k v m) = map_get k' m"
  by (induction m) (auto simp: map_get_def)

subsection \<open>Moves\<close>

lemma make_move_legal_eq:
  assumes r: "map_get roomId (rooms s) = Some r"
    and p: "find (\<lambda>p. socketId p = Some sock) (players r) = Some p"
    and i: "i \<le> 8" "board_at (board r) i = Some None"
    and t: "symbol p = currentTurn r"
  shows "make_move sock roomId (JInt (int i)) s =
     (let brd = (board r)[i := Some (symbol p)];
          turn = (if symbol p = Mark_X then Mark_O else Mark_X);
          res = checkWinner brd;
          over = (winner res \<noteq> None \<or> list_all (\<lambda>c. c \<noteq> None) brd);
          ps = (case winner res of
                  Some w \<Rightarrow> update_first (\<lambda>q. symbol q = w)
                              (\<lambda>q. q\<lparr>points := points q + 1\<rparr>) (players r)
                | None \<Rightarrow> players r)
      in (s\<lparr>rooms := map_set roomId
              (r\<lparr>players := (if over then ps else players r), board := brd, currentTurn := turn,
                 readySet := (if over then [] else readySet r)\<rparr>) (rooms s)\<rparr>,
          Update_board roomId brd turn i #
            (if over then [Round_over roomId (winner res) (line res) (round_n r) ps brd i]
             else [])))"
  using assms unfolding make_move_def Let_def
  by (cases "winner (checkWinner ((board r)[i := Some (symbol p)]))") simp_all

lemma make_move_illegal:
  assumes "\<not> (\<exists>r p i. map_get roomId (rooms s) = Some r
                  \<and> find (\<lambda>p. socketId p = Some sock) (players r) = Some p
                  \<and> index = JInt (int i) \<and> i \<le> 8
                  \<and> board_at (board r) i = Some None
                  \<and> symbol p = currentTurn r)"
  shows "make_move sock roomId index s = (s, [])"
proof (cases "map_get roomId (rooms s)")
  case None
  then show ?thesis by (simp add: make_move_def)
next
  case (Some r)
  note r = this
  show ?thesis
  proof (cases "find (\<lambda>p. socketId p = Some sock) (players r)")
    case None
    with r show ?thesis by (simp add: make_move_def)
  next
    case (Some p)
    note p = this
    show ?thesis
    proof (cases index)
      case (JInt i)
      show ?thesis
      proof (cases "i < 0 \<or> i > 8")
        case True
        with r p JInt show ?thesis by (simp add: make_move_def)
      next
        case False
        then have n: "i = int (nat i)" "nat i \<le> 8" by auto
        from assms r p JInt n
        have "\<not> (board_at (board r) (nat i) = Some None \<and> symbol p = currentTurn r)"
          by metis
        with r p JInt False show ?thesis by (auto simp: make_move_def)
      qed
    next
      case JNonInt
      with r p show ?thesis by (simp add: make_move_def)
    next
      case JNotNumber
      with r p show ?thesis by (simp add: make_move_def)
    qed
  qed
qed

text \<open>
  Claim C1. A move is accepted if and only if the room exists, a seat of the room holds
  the caller's connection (the acting seat is the first such seat), the index is a number
  in [0,8], the target cell exists and is empty, and the acting seat's mark is
  \<open>currentTurn\<close>. A rejected move leaves the whole state unchanged; an accepted move
  writes the acting mark into the cell and makes \<open>currentTurn\<close> the other mark.
\<close>

theorem make_move_accepted_iff:
  assumes "make_move sock roomId index s = (s', out)"
  shows "(move_accepted out \<longleftrightarrow>
           (\<exists>r p i. map_get roomId (rooms s) = Some r
                  \<and> find (\<lambda>p. socketId p = Some sock) (players r) = Some p
                  \<and> index = JInt (int i) \<and> i \<le> 8
                  \<and> board_at (board r) i = Some None
                  \<and> symbol p = currentTurn r))
       \<and> (\<not> move_accepted out \<longrightarrow> s' = s)
       \<and> (move_accepted out \<longrightarrow>
           (\<exists>r r' p i. map_get roomId (rooms s) = Some r
                  \<and> map_get roomId (rooms s') = Some r'
                  \<and> find (\<lambda>p. socketId p = Some sock) (players r) = Some p
                  \<and> index = JInt (int i)
                  \<and> board r' = (board r)[i := Some (symbol p)]
                  \<and> board r' ! i = Some (symbol p)
                  \<and> currentTurn r' = (if symbol p = Mark_X then Mark_O else Mark_X)
                  \<and> currentTurn r' \<noteq> symbol p))"
proof (cases "\<exists>r p i. map_get roomId (rooms s) = Some r
                  \<and> find (\<lambda>p. socketId p = Some sock) (players r) = Some p
                  \<and> index = JInt (int i) \<and> i \<le> 8
                  \<and> board_at (board r) i = Some None
                  \<and> symbol p = currentTurn r")
  case False
  from make_move_illegal [OF False] assms have "s' = s" "out = []" by simp_all
  with False show ?thesis by (simp add: move_accepted_def)
next
  case True
  then obtain r p i where g: "map_get roomId (rooms s) = Some r"
      "find (\<lambda>p. socketId p = Some sock) (players r) = Some p"
      "index = JInt (int i)" "i \<le> 8" "board_at (board r) i = Some None"
      "symbol p = currentTurn r"
    by blast
  let ?brd = "(board r)[i := Some (symbol p)]"
  let ?turn = "if symbol p = Mark_X then Mark_O else Mark_X"
  let ?res = "checkWinner ?brd"
  let ?over = "winner ?res \<noteq> None \<or> list_all (\<lambda>c. c \<noteq> None) ?brd"
  let ?ps = "case winner ?res of
               Some w \<Rightarrow> update_first (\<lambda>q. symbol q = w)
                           (\<lambda>q. q\<lparr>points := points q + 1\<rparr>) (players r)
             | None \<Rightarrow> players r"
  let ?r' = "r\<lparr>players := (if ?over then ?ps else players r), board := ?brd,
               currentTurn := ?turn, readySet := (if ?over then [] else readySet r)\<rparr>"
  from make_move_legal_eq [OF g(1,2,4,5,6)] assms g(3)
  have s': "s' = s\<lparr>rooms := map_set roomId ?r' (rooms s)\<rparr>"
    and out: "out = Update_board roomId ?brd ?turn i #
            (if ?over then [Round_over roomId (winner ?res) (line ?res) (round_n r) ?ps ?brd i]
             else [])"
    unfolding Let_def by simp_all
  from out have acc: "move_accepted out" by (simp add: move_accepted_def)
  from g(5) have len: "i < length (board r)"
    by (simp add: board_at_def split: if_splits)
  have get: "map_get roomId (rooms s') = Some ?r'"
    by (simp add: s' map_get_map_set_same)
  have post: "board ?r' = (board r)[i := Some (symbol p)]"
      "board ?r' ! i = Some (symbol p)"
      "currentTurn ?r' = (if symbol p = Mark_X then Mark_O else Mark_X)"
      "currentTurn ?r' \<noteq> symbol p"
    using len by simp_all
  from g(1,2,3) get post
  have "\<exists>r r' p i. map_get roomId (rooms s) = Some r
                  \<and> map_get roomId (rooms s') = Some r'
                  \<and> find (\<lambda>p. socketId p = Some sock) (players r) = Some p
                  \<and> index = JInt (int i)
                  \<and> board r' = (board r)[i := Some (symbol p)]
                  \<and> board r' ! i = Some (symbol p)
                  \<and> currentTurn r' = (if symbol p = Mark_X then Mark_O else Mark_X)
                  \<and> currentTurn r' \<noteq> symbol p"
    by blast
  with True acc show ?thesis by blast
qed

theorem make_move_accepted_iff_witness:
  "make_move ''s1'' ''00BE29'' (JInt 4) two_seated =
     (\<lparr>rooms =
        [(''00BE29'',
          \<lparr>players =
             [\<lparr>socketId = Some ''s1'', playerId = ''p1'', nickname = ''A'',
                symbol = Mark_X, points = 0\<rparr>,
              \<lparr>socketId = Some ''s2'', playerId = ''p2'', nickname = ''B'',
                symbol = Mark_O, points = 0\<rparr>],
             board = [None, None, None, None, Some Mark_X, None, None, None, None],
             currentTurn = Mark_O, round_n = 1, readySet = [], cleanupTimer = None\<rparr>)],
        timers = [], next_timer = 0\<rparr>,
      [Update_board ''00BE29'' [None, None, None, None, Some Mark_X, None, None, None, None]
         Mark_O 4])
   \<and> move_accepted
        [Update_board ''00BE29'' [None, None, None, None, Some Mark_X, None, None, None, None]
           Mark_O 4]
   \<and> (\<exists>r p i. map_get ''00BE29'' (rooms two_seated) = Some r
          \<and> find (\<lambda>p. socketId p = Some ''s1'') (players r) = Some p
          \<and> JInt 4 = JInt (int i) \<and> i \<le> 8
          \<and> board_at (board r) i = Some None
          \<and> symbol p = currentTurn r)"
proof -
  let ?s = "\<lparr>rooms =
        [(''00BE29'',
          \<lparr>players =
             [\<lparr>socketId = Some ''s1'', playerId = ''p1'', nickname = ''A'',
                symbol = Mark_X, points = 0\<rparr>,
              \<lparr>socketId = Some ''s2'', playerId = ''p2'', nickname = ''B'',
                symbol = Mark_O, points = 0\<rparr>],
             board = [None, None, None, None, Some Mark_X, None, None, None, None],
             currentTurn = Mark_O, round_n = 1, readySet = [], cleanupTimer = None\<rparr>)],
        timers = [], next_timer = 0\<rparr>"
  let ?out = "[Update_board ''00BE29''
                 [None, None, None, None, Some Mark_X, None, None, None, None] Mark_O 4]"
  have e: "make_move ''s1'' ''00BE29'' (JInt 4) two_seated = (?s, ?out)"
    by code_simp
  have acc: "move_accepted ?out"
    by code_simp
  from make_move_accepted_iff [OF e] acc e show ?thesis
    by blast
qed

subsection \<open>Lists changed in place\<close>

lemma find_update_first:
  "find P xs = Some p \<Longrightarrow>
   \<exists>k<length xs. xs ! k = p \<and> P p \<and> (\<forall>j<k. \<not> P (xs ! j)) \<and> update_first P f xs = xs[k := f p]"
proof (induction xs)
  case Nil
  then show ?case by simp
next
  case (Cons x xs)
  show ?case
  proof (cases "P x")
    case True
    with Cons.prems have "x = p" by simp
    with True have "0 < length (x # xs) \<and> (x # xs) ! 0 = p \<and> P p \<and> (\<forall>j<0. \<not> P ((x # xs) ! j))
        \<and> update_first P f (x # xs) = (x # xs)[0 := f p]"
      by simp
    then show ?thesis by blast
  next
    case False
    with Cons.prems have "find P xs = Some p" by simp
    from Cons.IH [OF this] obtain k where k: "k < length xs" "xs ! k = p" "P p"
        "\<forall>j<k. \<not> P (xs ! j)" "update_first P f xs = xs[k := f p]"
      by blast
    have "\<forall>j<Suc k. \<not> P ((x # xs) ! j)"
    proof (intro allI impI)
      fix j assume "j < Suc k"
      with False k(4) show "\<not> P ((x # xs) ! j)" by (cases j) auto
    qed
    with False k have "Suc k < length (x # xs) \<and> (x # xs) ! Suc k = p \<and> P p
        \<and> (\<forall>j<Suc k. \<not> P ((x # xs) ! j))
        \<and> update_first P f (x # xs) = (x # xs)[Suc k := f p]"
      by simp
    then show ?thesis by blast
  qed
qed

lemma find_None_update_first: "find P xs = None \<Longrightarrow> update_first P f xs = xs"
  by (induction xs) (auto split: if_splits)

lemma length_update_first: "length (update_first P f xs) = length xs"
  by (induction xs) auto

lemma map_set_keys_present:
  "map_get k m = Some v \<Longrightarrow> map fst (map_set k v' m) = map fst m"
  by (induction m) (auto simp: map_get_def split: if_splits)

lemma map_set_keys_absent:
  "map_get k m = None \<Longrightarrow> map_set k v' m = m @ [(k, v')]"
  by (induction m) (auto simp: map_get_def split: if_splits)

lemma map_set_split:
  "k \<notin> fst ` set pre \<Longrightarrow> map_set k v' (pre @ (k, v) # post) = pre @ (k, v') # post"
  by (induction pre) auto

lemma map_get_split:
  "k \<notin> fst ` set pre \<Longrightarrow> map_get k (pre @ (k, v) # post) = Some v"
  by (induction pre) (auto simp: map_get_def)

subsection \<open>Disconnect\<close>

lemma disconnect_loop_skip:
  "\<forall>kr \<in> set pre. find (\<lambda>p. socketId p = Some sock) (players (snd kr)) = None \<Longrightarrow>
   disconnect_loop sock (pre @ rest) s = disconnect_loop sock rest s"
  by (induction pre) auto

lemma scheduleRoomCleanup_rooms:
  assumes "rooms s = pre @ (k, r) # post" "k \<notin> fst ` set pre"
  shows "\<exists>r'. rooms (scheduleRoomCleanup k s) = pre @ (k, r') # post
            \<and> players r' = players r \<and> board r' = board r \<and> currentTurn r' = currentTurn r
            \<and> round_n r' = round_n r \<and> readySet r' = readySet r"
proof (cases "cleanupTimer r")
  case None
  with assms have "rooms (scheduleRoomCleanup k s) =
      pre @ (k, r\<lparr>cleanupTimer := Some (next_timer s)\<rparr>) # post"
    by (simp add: scheduleRoomCleanup_def map_get_split map_set_split)
  then show ?thesis by simp
next
  case (Some t)
  with assms have "rooms (scheduleRoomCleanup k s) = pre @ (k, r) # post"
    by (simp add: scheduleRoomCleanup_def map_get_split)
  then show ?thesis by simp
qed

text \<open>
  Claim C10. When the first room, in the store's iteration order, that has a seat with
  the disconnecting socket's id is \<open>roomId\<close>, the handler clears the connection of the
  first such seat of that room and broadcasts player-left for it only; the rooms before
  and after it in the store are unchanged, so a seat the same socket holds in a later
  room stays connected.
\<close>

theorem disconnect_first_room_only:
  assumes dist: "distinct (map fst (rooms s))"
    and split: "rooms s = pre @ (roomId, r) # post"
    and pre: "\<forall>kr \<in> set pre. find (\<lambda>p. socketId p = Some sock) (players (snd kr)) = None"
    and seat: "find (\<lambda>p. socketId p = Some sock) (players r) = Some p"
  shows "\<exists>k r'. rooms (fst (disconnect sock s)) = pre @ (roomId, r') # post
           \<and> k < length (players r) \<and> players r ! k = p
           \<and> (\<forall>j<k. socketId (players r ! j) \<noteq> Some sock)
           \<and> players r' = (players r)[k := p\<lparr>socketId := None\<rparr>]
           \<and> board r' = board r \<and> currentTurn r' = currentTurn r
           \<and> round_n r' = round_n r \<and> readySet r' = readySet r
           \<and> snd (disconnect sock s) = [Player_left roomId (playerId p) (nickname p) (symbol p)]"
proof -
  from dist split have notin: "roomId \<notin> fst ` set pre" by auto
  from find_update_first [OF seat, of "\<lambda>p. p\<lparr>socketId := None\<rparr>"]
  obtain k where k: "k < length (players r)" "players r ! k = p"
      "\<forall>j<k. socketId (players r ! j) \<noteq> Some sock"
      "update_first (\<lambda>p. socketId p = Some sock) (\<lambda>p. p\<lparr>socketId := None\<rparr>) (players r)
         = (players r)[k := p\<lparr>socketId := None\<rparr>]"
    by blast
  let ?r1 = "r\<lparr>players := (players r)[k := p\<lparr>socketId := None\<rparr>]\<rparr>"
  let ?s1 = "s\<lparr>rooms := map_set roomId ?r1 (rooms s)\<rparr>"
  have loop: "disconnect sock s =
      (if activePlayersCount ?r1 = 0 then scheduleRoomCleanup roomId ?s1 else ?s1,
       [Player_left roomId (playerId p) (nickname p) (symbol p)])"
    unfolding disconnect_def split disconnect_loop_skip [OF pre]
    using seat k(4) by (simp add: Let_def split [symmetric])
  have rooms1: "rooms ?s1 = pre @ (roomId, ?r1) # post"
    using notin by (simp add: split map_set_split)
  have "\<exists>r'. rooms (fst (disconnect sock s)) = pre @ (roomId, r') # post
            \<and> players r' = players ?r1 \<and> board r' = board ?r1
            \<and> currentTurn r' = currentTurn ?r1
            \<and> round_n r' = round_n ?r1 \<and> readySet r' = readySet ?r1"
  proof (cases "activePlayersCount ?r1 = 0")
    case True
    with loop have "fst (disconnect sock s) = scheduleRoomCleanup roomId ?s1" by simp
    with scheduleRoomCleanup_rooms [OF rooms1 notin] show ?thesis by simp
  next
    case False
    with loop have "fst (disconnect sock s) = ?s1" by simp
    with rooms1 show ?thesis by simp
  qed
  then obtain r' where r': "rooms (fst (disconnect sock s)) = pre @ (roomId, r') # post"
      "players r' = (players r)[k := p\<lparr>socketId := None\<rparr>]" "board r' = board r"
      "currentTurn r' = currentTurn r" "round_n r' = round_n r" "readySet r' = readySet r"
    by auto
  from loop have out: "snd (disconnect sock s)
      = [Player_left roomId (playerId p) (nickname p) (symbol p)]"
    by simp
  from r' k(1,2,3) out show ?thesis by blast
qed

subsection \<open>Ready for the next round\<close>

lemma set_add_card:
  "distinct xs \<Longrightarrow> length (set_add x xs) = card (insert x (set xs))"
  by (simp add: set_add_def distinct_card insert_absorb)

text \<open>
  Claim C4. The handler records the caller's acknowledgment; the round advances if and
  only if two distinct acknowledgments are then recorded. Advancing increments the round
  by 1, makes the board 9 empty cells, sets currentTurn by the parity of the new round
  (odd: X, even: O) and clears readySet; otherwise round, board and currentTurn stay and
  the acknowledgment is kept.
\<close>

theorem ready_next_round_advance:
  assumes "ready_next_round sock roomId s = (s', out)"
  shows "case map_get roomId (rooms s) of
      None \<Rightarrow> s' = s \<and> out = []
    | Some r \<Rightarrow> distinct (readySet r) \<longrightarrow>
       (\<exists>r'. map_get roomId (rooms s') = Some r'
          \<and> players r' = players r \<and> cleanupTimer r' = cleanupTimer r
          \<and> (if 2 \<le> card (insert sock (set (readySet r)))
              then round_n r' = round_n r + 1
                 \<and> board r' = replicate 9 None
                 \<and> currentTurn r' = (if odd (round_n r') then Mark_X else Mark_O)
                 \<and> readySet r' = []
                 \<and> out = [New_round roomId (round_n r') (board r') (currentTurn r') (players r')]
              else round_n r' = round_n r \<and> board r' = board r
                 \<and> currentTurn r' = currentTurn r
                 \<and> set (readySet r') = insert sock (set (readySet r))
                 \<and> distinct (readySet r')
                 \<and> out = []))"
proof (cases "map_get roomId (rooms s)")
  case None
  with assms show ?thesis by (simp add: ready_next_round_def)
next
  case (Some r)
  have "distinct (readySet r) \<longrightarrow>
       (\<exists>r'. map_get roomId (rooms s') = Some r'
          \<and> players r' = players r \<and> cleanupTimer r' = cleanupTimer r
          \<and> (if 2 \<le> card (insert sock (set (readySet r)))
              then round_n r' = round_n r + 1
                 \<and> board r' = replicate 9 None
                 \<and> currentTurn r' = (if odd (round_n r') then Mark_X else Mark_O)
                 \<and> readySet r' = []
                 \<and> out = [New_round roomId (round_n r') (board r') (currentTurn r') (players r')]
              else round_n r' = round_n r \<and> board r' = board r
                 \<and> currentTurn r' = currentTurn r
                 \<and> set (readySet r') = insert sock (set (readySet r))
                 \<and> distinct (readySet r')
                 \<and> out = []))"
  proof
    assume d: "distinct (readySet r)"
    show "\<exists>r'. map_get roomId (rooms s') = Some r'
          \<and> players r' = players r \<and> cleanupTimer r' = cleanupTimer r
          \<and> (if 2 \<le> card (insert sock (set (readySet r)))
              then round_n r' = round_n r + 1
                 \<and> board r' = replicate 9 None
                 \<and> currentTurn r' = (if odd (round_n r') then Mark_X else Mark_O)
                 \<and> readySet r' = []
                 \<and> out = [New_round roomId (round_n r') (board r') (currentTurn r') (players r')]
              else round_n r' = round_n r \<and> board r' = board r
                 \<and> currentTurn r' = currentTurn r
                 \<and> set (readySet r') = insert sock (set (readySet r))
                 \<and> distinct (readySet r')
                 \<and> out = [])"
    proof (cases "2 \<le> card (insert sock (set (readySet r)))")
      case True
      with d have len: "2 \<le> length (set_add sock (readySet r))"
        by (simp add: set_add_card)
      let ?rnd = "round_n r + 1"
      let ?r' = "r\<lparr>board := replicate 9 None,
                    currentTurn := (if ?rnd mod 2 = 1 then Mark_X else Mark_O),
                    round_n := ?rnd, readySet := []\<rparr>"
      from assms Some len
      have s': "s' = s\<lparr>rooms := map_set roomId ?r' (rooms s)\<rparr>"
        and out: "out = [New_round roomId ?rnd (replicate 9 None)
                           (if ?rnd mod 2 = 1 then Mark_X else Mark_O) (players r)]"
        by (simp_all add: ready_next_round_def Let_def)
      have par: "(?rnd mod 2 = 1) = odd (round_n ?r')"
        unfolding odd_iff_mod_2_eq_one by simp
      have "map_get roomId (rooms s') = Some ?r'"
        by (simp add: s' map_get_map_set_same)
      moreover have "round_n ?r' = round_n r + 1" "board ?r' = replicate 9 None"
        "readySet ?r' = []" "players ?r' = players r" "cleanupTimer ?r' = cleanupTimer r"
        by simp_all
      moreover have "currentTurn ?r' = (if odd (round_n ?r') then Mark_X else Mark_O)"
        unfolding par [symmetric] by simp
      moreover have "out = [New_round roomId (round_n ?r') (board ?r') (currentTurn ?r') (players ?r')]"
        by (simp add: out)
      ultimately show ?thesis using True by (intro exI [of _ ?r']) simp
    next
      case False
      with d have len: "\<not> 2 \<le> length (set_add sock (readySet r))"
        by (simp add: set_add_card)
      let ?r' = "r\<lparr>readySet := set_add sock (readySet r)\<rparr>"
      from assms Some len
      have s': "s' = s\<lparr>rooms := map_set roomId ?r' (rooms s)\<rparr>" and out: "out = []"
        by (simp_all add: ready_next_round_def Let_def)
      have "map_get roomId (rooms s') = Some ?r'"
        by (simp add: s' map_get_map_set_same)
      moreover have "set (readySet ?r') = insert sock (set (readySet r))"
        "distinct (readySet ?r')"
        using d by (auto simp: set_add_def)
      ultimately show ?thesis using False out by (intro exI [of _ ?r']) simp
    qed
  qed
  with Some show ?thesis by simp
qed

theorem disconnect_first_room_only_witness:
  "rooms two_rooms =
     [(''00BE29'',
       \<lparr>players = [\<lparr>socketId = Some ''s1'', playerId = ''p1'', nickname = ''A'',
                     symbol = Mark_X, points = 0\<rparr>],
          board = replicate 9 None, currentTurn = Mark_X, round_n = 1, readySet = [],
          cleanupTimer = None\<rparr>),
      (''00Y66R'',
       \<lparr>players = [\<lparr>socketId = Some ''s1'', playerId = ''p1'', nickname = ''A'',
                     symbol = Mark_X, points = 0\<rparr>],
          board = replicate 9 None, currentTurn = Mark_X, round_n = 1, readySet = [],
          cleanupTimer = None\<rparr>)]
   \<and> (\<exists>r'. rooms (fst (disconnect ''s1'' two_rooms)) =
          [(''00BE29'', r'),
           (''00Y66R'',
            \<lparr>players = [\<lparr>socketId = Some ''s1'', playerId = ''p1'', nickname = ''A'',
                          symbol = Mark_X, points = 0\<rparr>],
               board = replicate 9 None, currentTurn = Mark_X, round_n = 1, readySet = [],
               cleanupTimer = None\<rparr>)]
        \<and> players r' = [\<lparr>socketId = None, playerId = ''p1'', nickname = ''A'',
                          symbol = Mark_X, points = 0\<rparr>])
   \<and> snd (disconnect ''s1'' two_rooms) = [Player_left ''00BE29'' ''p1'' ''A'' Mark_X]"
proof -
  let ?p = "\<lparr>socketId = Some ''s1'', playerId = ''p1'', nickname = ''A'',
              symbol = Mark_X, points = 0\<rparr>"
  let ?r = "\<lparr>players = [?p], board = replicate 9 None, currentTurn = Mark_X, round_n = 1,
              readySet = [], cleanupTimer = None\<rparr>"
  have rs: "rooms two_rooms = [] @ (''00BE29'', ?r) # [(''00Y66R'', ?r)]"
    by code_simp
  have d: "distinct (map fst (rooms two_rooms))"
    unfolding rs by simp
  have pre: "\<forall>kr \<in> set []. find (\<lambda>p. socketId p = Some ''s1'') (players (snd kr)) = None"
    by simp
  have seat: "find (\<lambda>p. socketId p = Some ''s1'') (players ?r) = Some ?p"
    by simp
  from disconnect_first_room_only [OF d rs pre seat]
  obtain k r' where k: "rooms (fst (disconnect ''s1'' two_rooms)) = [] @ (''00BE29'', r') # [(''00Y66R'', ?r)]"
    "k < length (players ?r)" "players r' = (players ?r)[k := ?p\<lparr>socketId := None\<rparr>]"
    "snd (disconnect ''s1'' two_rooms) = [Player_left ''00BE29'' (playerId ?p) (nickname ?p) (symbol ?p)]"
    by blast
  from k(2) have "k = 0" by simp
  with k(3) have "players r' = [\<lparr>socketId = None, playerId = ''p1'', nickname = ''A'',
                          symbol = Mark_X, points = 0\<rparr>]"
    by simp
  with k(1,4) rs show ?thesis by simp
qed

theorem ready_next_round_advance_witness:
  "map_get ''00BE29'' (rooms one_ack) =
     Some \<lparr>players =
             [\<lparr>socketId = Some ''s1'', playerId = ''p1'', nickname = ''A'',
                symbol = Mark_X, points = 1\<rparr>,
              \<lparr>socketId = Some ''s2'', playerId = ''p2'', nickname = ''B'',
                symbol = Mark_O, points = 0\<rparr>],
           board = [Some Mark_X, Some Mark_X, Some Mark_X, Some Mark_O, Some Mark_O,
                    None, None, None, None],
           currentTurn = Mark_O, round_n = 1, readySet = [''s1''], cleanupTimer = None\<rparr>
   \<and> (\<exists>r'. map_get ''00BE29'' (rooms (fst (ready_next_round ''s2'' ''00BE29'' one_ack))) = Some r'
          \<and> round_n r' = 2 \<and> board r' = replicate 9 None \<and> currentTurn r' = Mark_O
          \<and> readySet r' = [])
   \<and> (\<exists>r'. map_get ''00BE29'' (rooms (fst (ready_next_round ''s1'' ''00BE29'' one_ack))) = Some r'
          \<and> round_n r' = 1 \<and> currentTurn r' = Mark_O \<and> set (readySet r') = {''s1''})"
proof -
  let ?r = "\<lparr>players =
             [\<lparr>socketId = Some ''s1'', playerId = ''p1'', nickname = ''A'',
                symbol = Mark_X, points = 1\<rparr>,
              \<lparr>socketId = Some ''s2'', playerId = ''p2'', nickname = ''B'',
                symbol = Mark_O, points = 0\<rparr>],
           board = [Some Mark_X, Some Mark_X, Some Mark_X, Some Mark_O, Some Mark_O,
                    None, None, None, None],
           currentTurn = Mark_O, round_n = 1, readySet = [''s1''], cleanupTimer = None\<rparr>"
  have r: "map_get ''00BE29'' (rooms one_ack) = Some ?r"
    by code_simp
  have e2: "ready_next_round ''s2'' ''00BE29'' one_ack =
      (fst (ready_next_round ''s2'' ''00BE29'' one_ack),
       snd (ready_next_round ''s2'' ''00BE29'' one_ack))"
    by simp
  have e1: "ready_next_round ''s1'' ''00BE29'' one_ack =
      (fst (ready_next_round ''s1'' ''00BE29'' one_ack),
       snd (ready_next_round ''s1'' ''00BE29'' one_ack))"
    by simp
  from ready_next_round_advance [OF e2] r
  have a2: "\<exists>r'. map_get ''00BE29'' (rooms (fst (ready_next_round ''s2'' ''00BE29'' one_ack))) = Some r'
          \<and> round_n r' = 2 \<and> board r' = replicate 9 None \<and> currentTurn r' = Mark_O
          \<and> readySet r' = []"
    by auto
  from ready_next_round_advance [OF e1] r
  have a1: "\<exists>r'. map_get ''00BE29'' (rooms (fst (ready_next_round ''s1'' ''00BE29'' one_ack))) = Some r'
          \<and> round_n r' = 1 \<and> currentTurn r' = Mark_O \<and> set (readySet r') = {''s1''}"
    by auto
  from r a2 a1 show ?thesis by blast
qed

subsection \<open>Every reachable state is well formed\<close>

lemma keys_map_set: "fst ` set (map_set k v m) = insert k (fst ` set m)"
proof (induction m)
  case Nil
  show ?case by simp
next
  case (Cons e m)
  obtain k' v' where e: "e = (k', v')" by (cases e)
  show ?case
  proof (cases "k' = k")
    case True
    with e show ?thesis by auto
  next
    case False
    with e Cons show ?thesis by auto
  qed
qed

lemma distinct_map_set: "distinct (map fst m) \<Longrightarrow> distinct (map fst (map_set k v m))"
  by (induction m) (auto simp: keys_map_set)

lemma set_map_set: "set (map_set k v m) \<subseteq> insert (k, v) (set m)"
proof (induction m)
  case Nil
  show ?case by simp
next
  case (Cons e m)
  obtain k' v' where e: "e = (k', v')" by (cases e)
  show ?case
  proof (cases "k' = k")
    case True
    with e show ?thesis by auto
  next
    case False
    with e Cons show ?thesis by auto
  qed
qed

lemma map_get_in_set: "map_get k m = Some v \<Longrightarrow> (k, v) \<in> set m"
  by (simp add: map_get_def map_of_SomeD)

lemma map_symbol_update_first:
  "(\<And>p. symbol (f p) = symbol p) \<Longrightarrow> map symbol (update_first P f xs) = map symbol xs"
  by (induction xs) auto

lemma server_ok_room:
  assumes "server_ok s" "map_get k (rooms s) = Some r"
  shows "room_ok r"
proof -
  from assms(2) have "(k, r) \<in> set (rooms s)" by (rule map_get_in_set)
  with assms(1) have "room_ok (snd (k, r))"
    unfolding server_ok_def list_all_iff by blast
  then show ?thesis by simp
qed

lemma server_ok_set_room:
  assumes "server_ok s" "room_ok r'"
  shows "server_ok (s\<lparr>rooms := map_set k r' (rooms s)\<rparr>)"
proof -
  from assms have "\<forall>kr \<in> set (map_set k r' (rooms s)). room_ok (snd kr)"
    using set_map_set [of k r' "rooms s"] by (auto simp: server_ok_def list_all_iff)
  with assms show ?thesis
    by (simp add: server_ok_def list_all_iff distinct_map_set)
qed

lemma server_ok_delete_room:
  assumes "server_ok s"
  shows "server_ok (s\<lparr>rooms := map_delete k (rooms s)\<rparr>)"
  using assms by (simp add: server_ok_def list_all_iff map_delete_def distinct_map_filter)

lemma server_ok_clearTimeout:
  assumes "server_ok s"
  shows "server_ok (s\<lparr>timers := clearTimeout h (timers s)\<rparr>)"
  using assms
  by (cases h) (simp_all add: server_ok_def list_all_iff clearTimeout_def distinct_map_filter)

lemma server_ok_filter_timers:
  assumes "server_ok s"
  shows "server_ok (s\<lparr>timers := filter P (timers s)\<rparr>)"
  using assms by (simp add: server_ok_def list_all_iff distinct_map_filter)

lemma room_ok_cleanupTimer: "room_ok (r\<lparr>cleanupTimer := h\<rparr>) = room_ok r"
  by (simp add: room_ok_def)

lemma server_ok_scheduleRoomCleanup:
  assumes "server_ok s"
  shows "server_ok (scheduleRoomCleanup k s)"
proof (cases "map_get k (rooms s)")
  case None
  with assms show ?thesis by (simp add: scheduleRoomCleanup_def)
next
  case (Some r)
  show ?thesis
  proof (cases "cleanupTimer r")
    case (Some t)
    with \<open>map_get k (rooms s) = Some r\<close> assms show ?thesis
      by (simp add: scheduleRoomCleanup_def)
  next
    case None
    from assms \<open>map_get k (rooms s) = Some r\<close>
    have "room_ok (r\<lparr>cleanupTimer := Some (next_timer s)\<rparr>)"
      by (simp add: room_ok_cleanupTimer server_ok_room)
    from server_ok_set_room [OF assms this, of k]
    have ok1: "server_ok (s\<lparr>rooms := map_set k (r\<lparr>cleanupTimer := Some (next_timer s)\<rparr>) (rooms s)\<rparr>)" .
    have "scheduleRoomCleanup k s =
        s\<lparr>rooms := map_set k (r\<lparr>cleanupTimer := Some (next_timer s)\<rparr>) (rooms s),
          timers := timers s @ [(next_timer s, k)], next_timer := Suc (next_timer s)\<rparr>"
      using None \<open>map_get k (rooms s) = Some r\<close> by (simp add: scheduleRoomCleanup_def)
    moreover from ok1 have "server_ok \<dots>"
      by (auto simp: server_ok_def list_all_iff)
    ultimately show ?thesis by simp
  qed
qed

lemma server_ok_create_room: "server_ok s \<Longrightarrow> server_ok (fst (create_room sock nick pid rnd36 s))"
  by (simp add: create_room_def Let_def server_ok_set_room room_ok_def)

lemma server_ok_join_room:
  assumes "server_ok s"
  shows "server_ok (fst (join_room sock nick pid roomId s))"
proof (cases "map_get roomId (rooms s)")
  case None
  with assms show ?thesis by (simp add: join_room_def)
next
  case (Some r)
  from server_ok_room [OF assms Some] have ok: "room_ok r" .
  have "length (players r) < 2 \<Longrightarrow>
      room_ok (r\<lparr>players := players r @ [\<lparr>socketId = Some sock, playerId = pid,
                 nickname = nick, symbol = Mark_O, points = 0\<rparr>]\<rparr>)"
    using ok by (auto simp: room_ok_def)
  with assms Some show ?thesis
    by (simp add: join_room_def Let_def server_ok_set_room)
qed

lemma server_ok_rejoin_room:
  assumes "server_ok s"
  shows "server_ok (fst (rejoin_room sock roomId pid s))"
proof (cases "map_get roomId (rooms s)")
  case None
  with assms show ?thesis by (simp add: rejoin_room_def)
next
  case (Some r)
  from server_ok_room [OF assms Some] have ok: "room_ok r" .
  let ?r' = "r\<lparr>players := update_first (\<lambda>p. playerId p = pid)
                                (\<lambda>p. p\<lparr>socketId := Some sock\<rparr>) (players r),
                 cleanupTimer := None\<rparr>"
  from ok have "room_ok ?r'"
    by (simp add: room_ok_def map_symbol_update_first)
  from server_ok_clearTimeout [OF server_ok_set_room [OF assms this, of roomId], of "cleanupTimer r"]
  have "server_ok (s\<lparr>rooms := map_set roomId ?r' (rooms s),
                     timers := clearTimeout (cleanupTimer r) (timers s)\<rparr>)"
    by simp
  with assms Some show ?thesis
    by (simp add: rejoin_room_def Let_def split: option.split)
qed

lemma server_ok_make_move:
  assumes "server_ok s"
  shows "server_ok (fst (make_move sock roomId index s))"
proof (cases "\<exists>r p i. map_get roomId (rooms s) = Some r
                  \<and> find (\<lambda>p. socketId p = Some sock) (players r) = Some p
                  \<and> index = JInt (int i) \<and> i \<le> 8
                  \<and> board_at (board r) i = Some None
                  \<and> symbol p = currentTurn r")
  case False
  from make_move_illegal [OF False] assms show ?thesis by simp
next
  case True
  then obtain r p i where g: "map_get roomId (rooms s) = Some r"
      "find (\<lambda>p. socketId p = Some sock) (players r) = Some p"
      "index = JInt (int i)" "i \<le> 8" "board_at (board r) i = Some None"
      "symbol p = currentTurn r"
    by blast
  from server_ok_room [OF assms g(1)] have ok: "room_ok r" .
  let ?brd = "(board r)[i := Some (symbol p)]"
  let ?turn = "if symbol p = Mark_X then Mark_O else Mark_X"
  let ?res = "checkWinner ?brd"
  let ?over = "winner ?res \<noteq> None \<or> list_all (\<lambda>c. c \<noteq> None) ?brd"
  let ?ps = "case winner ?res of
               Some w \<Rightarrow> update_first (\<lambda>q. symbol q = w)
                           (\<lambda>q. q\<lparr>points := points q + 1\<rparr>) (players r)
             | None \<Rightarrow> players r"
  let ?r' = "r\<lparr>players := (if ?over then ?ps else players r), board := ?brd,
               currentTurn := ?turn, readySet := (if ?over then [] else readySet r)\<rparr>"
  have sym: "map symbol ?ps = map symbol (players r)"
    by (simp add: map_symbol_update_first split: option.split)
  have "map symbol (players ?r') = map symbol (players r)"
    using sym by simp
  moreover have "length (board ?r') = 9"
    using ok by (simp add: room_ok_def)
  moreover have "distinct (readySet ?r')" "length (readySet ?r') \<le> 1"
    using ok by (simp_all add: room_ok_def)
  ultimately have rok: "room_ok ?r'"
    using ok unfolding room_ok_def by metis
  have "fst (make_move sock roomId index s) = s\<lparr>rooms := map_set roomId ?r' (rooms s)\<rparr>"
    unfolding g(3) make_move_legal_eq [OF g(1,2,4,5,6)] Let_def by simp
  with server_ok_set_room [OF assms rok, of roomId] show ?thesis by simp
qed

lemma server_ok_ready_next_round:
  assumes "server_ok s"
  shows "server_ok (fst (ready_next_round sock roomId s))"
proof (cases "map_get roomId (rooms s)")
  case None
  with assms show ?thesis by (simp add: ready_next_round_def)
next
  case (Some r)
  from server_ok_room [OF assms Some] have ok: "room_ok r" .
  have a: "room_ok (r\<lparr>board := replicate 9 None, currentTurn := t, round_n := n, readySet := []\<rparr>)" for t n
    using ok by (simp add: room_ok_def)
  have b: "\<not> 2 \<le> length (set_add sock (readySet r)) \<Longrightarrow>
      room_ok (r\<lparr>readySet := set_add sock (readySet r)\<rparr>)"
    using ok by (auto simp: room_ok_def set_add_def)
  from assms Some a b show ?thesis
    by (simp add: ready_next_round_def Let_def server_ok_set_room)
qed

lemma server_ok_reset_scores:
  assumes "server_ok s"
  shows "server_ok (fst (reset_scores roomId s))"
proof (cases "map_get roomId (rooms s)")
  case None
  with assms show ?thesis by (simp add: reset_scores_def)
next
  case (Some r)
  from server_ok_room [OF assms Some] have ok: "room_ok r" .
  have "map symbol (map (\<lambda>p. p\<lparr>points := 0\<rparr>) (players r)) = map symbol (players r)"
    by (induction "players r") auto
  with ok have "room_ok (r\<lparr>players := map (\<lambda>p. p\<lparr>points := 0\<rparr>) (players r)\<rparr>)"
    by (simp add: room_ok_def del: map_map)
  with assms Some show ?thesis
    by (simp add: reset_scores_def Let_def server_ok_set_room)
qed

text \<open>What the loop of the disconnect handler does, whichever room it stops at.\<close>

lemma disconnect_loop_cases:
  "disconnect_loop sock es s = (s, []) \<or>
   (\<exists>roomId r p. (roomId, r) \<in> set es
      \<and> find (\<lambda>p. socketId p = Some sock) (players r) = Some p
      \<and> disconnect_loop sock es s =
          (let r' = r\<lparr>players := update_first (\<lambda>p. socketId p = Some sock)
                                   (\<lambda>p. p\<lparr>socketId := None\<rparr>) (players r)\<rparr>;
               s' = s\<lparr>rooms := map_set roomId r' (rooms s)\<rparr>
           in (if activePlayersCount r' = 0 then scheduleRoomCleanup roomId s' else s',
               [Player_left roomId (playerId p) (nickname p) (symbol p)])))"
proof (induction es)
  case Nil
  then show ?case by simp
next
  case (Cons e es)
  obtain roomId r where e: "e = (roomId, r)" by (cases e)
  show ?case
  proof (cases "find (\<lambda>p. socketId p = Some sock) (players r)")
    case None
    with Cons e show ?thesis by auto
  next
    case (Some p)
    with e have "(roomId, r) \<in> set (e # es)
      \<and> find (\<lambda>p. socketId p = Some sock) (players r) = Some p
      \<and> disconnect_loop sock (e # es) s =
          (let r' = r\<lparr>players := update_first (\<lambda>p. socketId p = Some sock)
                                   (\<lambda>p. p\<lparr>socketId := None\<rparr>) (players r)\<rparr>;
               s' = s\<lparr>rooms := map_set roomId r' (rooms s)\<rparr>
           in (if activePlayersCount r' = 0 then scheduleRoomCleanup roomId s' else s',
               [Player_left roomId (playerId p) (nickname p) (symbol p)]))"
      by simp
    then show ?thesis by blast
  qed
qed

lemma server_ok_disconnect:
  assumes "server_ok s"
  shows "server_ok (fst (disconnect sock s))"
  using disconnect_loop_cases [of sock "rooms s" s]
proof (elim disjE exE conjE)
  assume "disconnect_loop sock (rooms s) s = (s, [])"
  with assms show ?thesis by (simp add: disconnect_def)
next
  fix roomId r p
  assume mem: "(roomId, r) \<in> set (rooms s)"
    and eq: "disconnect_loop sock (rooms s) s =
          (let r' = r\<lparr>players := update_first (\<lambda>p. socketId p = Some sock)
                                   (\<lambda>p. p\<lparr>socketId := None\<rparr>) (players r)\<rparr>;
               s' = s\<lparr>rooms := map_set roomId r' (rooms s)\<rparr>
           in (if activePlayersCount r' = 0 then scheduleRoomCleanup roomId s' else s',
               [Player_left roomId (playerId p) (nickname p) (symbol p)]))"
  from assms mem have "room_ok (snd (roomId, r))"
    unfolding server_ok_def list_all_iff by blast
  then have "room_ok (r\<lparr>players := update_first (\<lambda>p. socketId p = Some sock)
                                   (\<lambda>p. p\<lparr>socketId := None\<rparr>) (players r)\<rparr>)"
    by (simp add: room_ok_def map_symbol_update_first)
  from server_ok_set_room [OF assms this, of roomId] show ?thesis
    unfolding disconnect_def eq Let_def by (simp add: server_ok_scheduleRoomCleanup)
qed

lemma server_ok_cleanup_callback:
  assumes "server_ok s"
  shows "server_ok (cleanup_callback roomId s)"
proof (cases "map_get roomId (rooms s)")
  case None
  with assms show ?thesis by (simp add: cleanup_callback_def)
next
  case (Some r)
  from server_ok_room [OF assms Some] have "room_ok (r\<lparr>cleanupTimer := None\<rparr>)"
    by (simp add: room_ok_cleanupTimer)
  from server_ok_clearTimeout [OF server_ok_set_room [OF assms this, of roomId], of "cleanupTimer r"]
  have "server_ok (s\<lparr>rooms := map_set roomId (r\<lparr>cleanupTimer := None\<rparr>) (rooms s),
                     timers := clearTimeout (cleanupTimer r) (timers s)\<rparr>)"
    by simp
  with assms Some show ?thesis
    by (simp add: cleanup_callback_def server_ok_delete_room)
qed

lemma server_ok_timer_fire:
  assumes "server_ok s"
  shows "server_ok (timer_fire t s)"
  using assms
  by (simp add: timer_fire_def server_ok_cleanup_callback server_ok_filter_timers
           split: option.split)

lemma server_ok_step: "server_ok s \<Longrightarrow> server_ok (fst (step e s))"
  by (cases e)
     (simp_all add: server_ok_create_room server_ok_join_room server_ok_rejoin_room
        server_ok_make_move server_ok_ready_next_round server_ok_reset_scores
        server_ok_disconnect server_ok_timer_fire)

lemma reachable_server_ok: "reachable s \<Longrightarrow> server_ok s"
proof (induction rule: reachable.induct)
  case reachable_init
  show ?case by (simp add: server_ok_def init_server_def)
next
  case (reachable_step s e)
  then show ?case by (simp add: server_ok_step)
qed

lemma fst_run_Cons: "fst (run (e # es) s) = fst (run es (fst (step e s)))"
  by (simp split: prod.split)

lemma fst_run_append: "fst (run (es @ [e]) s) = fst (step e (fst (run es s)))"
proof (induction es arbitrary: s)
  case Nil
  show ?case by (simp split: prod.split)
next
  case (Cons a es)
  have "fst (run ((a # es) @ [e]) s) = fst (run (es @ [e]) (fst (step a s)))"
    using fst_run_Cons [of a "es @ [e]" s] by simp
  also have "\<dots> = fst (step e (fst (run es (fst (step a s)))))"
    by (rule Cons.IH)
  also have "\<dots> = fst (step e (fst (run (a # es) s)))"
    by (simp only: fst_run_Cons)
  finally show ?case .
qed

lemma reachable_run: "reachable s \<Longrightarrow> reachable (fst (run es s))"
proof (induction es rule: rev_induct)
  case Nil
  then show ?case by simp
next
  case (snoc e es)
  then show ?case by (simp add: fst_run_append reachable_step)
qed

subsection \<open>Seats\<close>

text \<open>
  Claim C8, as the code has it. In every reachable state every room has one or two
  seats, the first marked X and the second, when there is one, marked O: at most one
  seat per mark. The playerIds are not compared: a second player joins a one-seat room
  under any non-empty playerId, the first seat's included.
\<close>

theorem seats_by_mark:
  assumes "reachable s" "map_get roomId (rooms s) = Some r"
  shows "(map symbol (players r) = [Mark_X] \<or> map symbol (players r) = [Mark_X, Mark_O])
     \<and> (length (players r) = 1 \<and> nick \<noteq> [] \<and> pid \<noteq> [] \<longrightarrow>
          map_get roomId (rooms (fst (join_room sock nick pid roomId s))) =
            Some (r\<lparr>players := players r @
                    [\<lparr>socketId = Some sock, playerId = pid, nickname = nick,
                      symbol = Mark_O, points = 0\<rparr>]\<rparr>))"
proof -
  from reachable_server_ok [OF assms(1)] assms(2) have "room_ok r"
    by (rule server_ok_room)
  then have a: "map symbol (players r) = [Mark_X] \<or> map symbol (players r) = [Mark_X, Mark_O]"
    by (simp add: room_ok_def)
  have b: "length (players r) = 1 \<and> nick \<noteq> [] \<and> pid \<noteq> [] \<longrightarrow>
          map_get roomId (rooms (fst (join_room sock nick pid roomId s))) =
            Some (r\<lparr>players := players r @
                    [\<lparr>socketId = Some sock, playerId = pid, nickname = nick,
                      symbol = Mark_O, points = 0\<rparr>]\<rparr>)"
    using assms(2) by (simp add: join_room_def Let_def map_get_map_set_same)
  from a b show ?thesis by (rule conjI)
qed

theorem seats_by_mark_witness:
  "reachable two_seated
   \<and> map_get ''00BE29'' (rooms two_seated) =
       Some \<lparr>players =
               [\<lparr>socketId = Some ''s1'', playerId = ''p1'', nickname = ''A'',
                  symbol = Mark_X, points = 0\<rparr>,
                \<lparr>socketId = Some ''s2'', playerId = ''p2'', nickname = ''B'',
                  symbol = Mark_O, points = 0\<rparr>],
             board = replicate 9 None, currentTurn = Mark_X, round_n = 1, readySet = [],
             cleanupTimer = None\<rparr>
   \<and> map symbol
        [\<lparr>socketId = Some ''s1'', playerId = ''p1'', nickname = ''A'',
           symbol = Mark_X, points = 0\<rparr>,
         \<lparr>socketId = Some ''s2'', playerId = ''p2'', nickname = ''B'',
           symbol = Mark_O, points = 0\<rparr>] = [Mark_X, Mark_O]"
proof -
  let ?r = "\<lparr>players =
               [\<lparr>socketId = Some ''s1'', playerId = ''p1'', nickname = ''A'',
                  symbol = Mark_X, points = 0\<rparr>,
                \<lparr>socketId = Some ''s2'', playerId = ''p2'', nickname = ''B'',
                  symbol = Mark_O, points = 0\<rparr>],
             board = replicate 9 None, currentTurn = Mark_X, round_n = 1, readySet = [],
             cleanupTimer = None\<rparr>"
  have re: "reachable two_seated"
    unfolding two_seated_def by (intro reachable_run reachable_init)
  have r: "map_get ''00BE29'' (rooms two_seated) = Some ?r"
    by code_simp
  from seats_by_mark [OF re r, of "''B''" "''p2''" "''s2''"]
  have "map symbol (players ?r) = [Mark_X] \<or> map symbol (players ?r) = [Mark_X, Mark_O]"
    by (rule conjunct1)
  then have "map symbol (players ?r) = [Mark_X, Mark_O]"
    by simp
  with re r show ?thesis by simp
qed

theorem playerId_unique_counterexample:
  "reachable same_playerId
   \<and> map_get ''00BE29'' (rooms same_playerId) =
       Some \<lparr>players =
               [\<lparr>socketId = Some ''s1'', playerId = ''p1'', nickname = ''A'',
                  symbol = Mark_X, points = 0\<rparr>,
                \<lparr>socketId = Some ''s2'', playerId = ''p1'', nickname = ''B'',
                  symbol = Mark_O, points = 0\<rparr>],
             board = replicate 9 None, currentTurn = Mark_X, round_n = 1, readySet = [],
             cleanupTimer = None\<rparr>
   \<and> \<not> distinct (map playerId
        [\<lparr>socketId = Some ''s1'', playerId = ''p1'', nickname = ''A'',
           symbol = Mark_X, points = 0\<rparr>,
         \<lparr>socketId = Some ''s2'', playerId = ''p1'', nickname = ''B'',
           symbol = Mark_O, points = 0\<rparr>])"
proof -
  have re: "reachable same_playerId"
    unfolding same_playerId_def by (intro reachable_run reachable_init)
  have r: "map_get ''00BE29'' (rooms same_playerId) =
       Some \<lparr>players =
               [\<lparr>socketId = Some ''s1'', playerId = ''p1'', nickname = ''A'',
                  symbol = Mark_X, points = 0\<rparr>,
                \<lparr>socketId = Some ''s2'', playerId = ''p1'', nickname = ''B'',
                  symbol = Mark_O, points = 0\<rparr>],
             board = replicate 9 None, currentTurn = Mark_X, round_n = 1, readySet = [],
             cleanupTimer = None\<rparr>"
    by code_simp
  from re r show ?thesis by simp
qed

subsection \<open>Room creation\<close>

lemma length_toUpperCase: "length (toUpperCase s) = length s"
  by (simp add: toUpperCase_def)

lemma length_generateRoomId: "length (generateRoomId rnd36) = min 6 (length rnd36 - 2)"
  by (simp add: generateRoomId_def slice_def length_toUpperCase)

text \<open>The random number 1/2 renders as 0.i in base 36: the id has one character.\<close>

lemma generateRoomId_short: "generateRoomId ''0.i'' = ''I''"
  by (simp add: generateRoomId_def slice_def toUpperCase_def)

text \<open>
  Claim C6, as the code has it. Room creation stores the new room (one seat X held by
  the caller, empty board, turn X, round 1) under the id the generator returns, and
  replies with that id, without looking at the live ids. The id has exactly 6 characters
  when the rendering of the random number has at least 6 digits after the point. When
  the id is not live the room is appended to the store; when it is live the new room
  takes the place of the live one. Rooms under other ids and the timeouts are unchanged.
\<close>

theorem create_room_stores_generated_id:
  assumes "nick \<noteq> []" "pid \<noteq> []"
  shows "(let roomId = generateRoomId rnd36;
              fresh = \<lparr>players = [\<lparr>socketId = Some sock, playerId = pid, nickname = nick,
                                   symbol = Mark_X, points = 0\<rparr>],
                        board = replicate 9 None, currentTurn = Mark_X, round_n = 1,
                        readySet = [], cleanupTimer = None\<rparr>;
              s' = fst (create_room sock nick pid rnd36 s)
          in snd (create_room sock nick pid rnd36 s) = [Reply_created roomId]
           \<and> (8 \<le> length rnd36 \<longrightarrow> length roomId = 6)
           \<and> map_get roomId (rooms s') = Some fresh
           \<and> (\<forall>k. k \<noteq> roomId \<longrightarrow> map_get k (rooms s') = map_get k (rooms s))
           \<and> (map_get roomId (rooms s) = None \<longrightarrow> rooms s' = rooms s @ [(roomId, fresh)])
           \<and> (map_get roomId (rooms s) \<noteq> None \<longrightarrow> map fst (rooms s') = map fst (rooms s))
           \<and> timers s' = timers s \<and> next_timer s' = next_timer s)"
proof -
  let ?roomId = "generateRoomId rnd36"
  let ?fresh = "\<lparr>players = [\<lparr>socketId = Some sock, playerId = pid, nickname = nick,
                                   symbol = Mark_X, points = 0\<rparr>],
                        board = replicate 9 None, currentTurn = Mark_X, round_n = 1,
                        readySet = [], cleanupTimer = None\<rparr>"
  from assms have eq: "create_room sock nick pid rnd36 s =
      (s\<lparr>rooms := map_set ?roomId ?fresh (rooms s)\<rparr>, [Reply_created ?roomId])"
    by (simp add: create_room_def Let_def)
  have len: "8 \<le> length rnd36 \<longrightarrow> length ?roomId = 6"
    by (simp add: length_generateRoomId)
  have absent: "map_get ?roomId (rooms s) = None \<longrightarrow>
      map_set ?roomId ?fresh (rooms s) = rooms s @ [(?roomId, ?fresh)]"
    by (simp add: map_set_keys_absent)
  have present: "map_get ?roomId (rooms s) \<noteq> None \<longrightarrow>
      map fst (map_set ?roomId ?fresh (rooms s)) = map fst (rooms s)"
    by (auto simp: map_set_keys_present)
  from len absent present show ?thesis
    unfolding Let_def eq by (simp add: map_get_map_set_same map_get_map_set_other)
qed

theorem create_room_stores_generated_id_witness:
  "''A'' \<noteq> [] \<and> ''p1'' \<noteq> []
   \<and> create_room ''s1'' ''A'' ''p1'' ''0.00be29'' init_server =
       (\<lparr>rooms = [(''00BE29'',
                   \<lparr>players = [\<lparr>socketId = Some ''s1'', playerId = ''p1'', nickname = ''A'',
                                 symbol = Mark_X, points = 0\<rparr>],
                      board = replicate 9 None, currentTurn = Mark_X, round_n = 1,
                      readySet = [], cleanupTimer = None\<rparr>)],
          timers = [], next_timer = 0\<rparr>,
        [Reply_created ''00BE29''])
   \<and> length (generateRoomId ''0.00be29'') = 6"
proof -
  have n: "''A'' \<noteq> []" "''p1'' \<noteq> []" by simp_all
  have id: "generateRoomId ''0.00be29'' = ''00BE29''"
    by (simp add: generateRoomId_def slice_def toUpperCase_def)
  have e: "create_room ''s1'' ''A'' ''p1'' ''0.00be29'' init_server =
       (\<lparr>rooms = [(''00BE29'',
                   \<lparr>players = [\<lparr>socketId = Some ''s1'', playerId = ''p1'', nickname = ''A'',
                                 symbol = Mark_X, points = 0\<rparr>],
                      board = replicate 9 None, currentTurn = Mark_X, round_n = 1,
                      readySet = [], cleanupTimer = None\<rparr>)],
          timers = [], next_timer = 0\<rparr>,
        [Reply_created ''00BE29''])"
    by (simp add: create_room_def Let_def id init_server_def)
  from create_room_stores_generated_id [OF n, of "''0.00be29''" "''s1''" init_server]
  have "length (generateRoomId ''0.00be29'') = 6"
    unfolding Let_def by simp
  with n e show ?thesis by simp
qed

text \<open>
  A third socket creates a room while the random number repeats the one that named the
  live room 00BE29: the reply names the live id, and the room of the two seated players
  is gone from the store, replaced by the new one-seat room.
\<close>

theorem create_room_collision_counterexample:
  "map_get ''00BE29'' (rooms two_seated) =
     Some \<lparr>players =
             [\<lparr>socketId = Some ''s1'', playerId = ''p1'', nickname = ''A'',
                symbol = Mark_X, points = 0\<rparr>,
              \<lparr>socketId = Some ''s2'', playerId = ''p2'', nickname = ''B'',
                symbol = Mark_O, points = 0\<rparr>],
           board = replicate 9 None, currentTurn = Mark_X, round_n = 1, readySet = [],
           cleanupTimer = None\<rparr>
   \<and> create_room ''s9'' ''C'' ''p9'' ''0.00be29'' two_seated =
       (\<lparr>rooms = [(''00BE29'',
                   \<lparr>players = [\<lparr>socketId = Some ''s9'', playerId = ''p9'', nickname = ''C'',
                                 symbol = Mark_X, points = 0\<rparr>],
                      board = replicate 9 None, currentTurn = Mark_X, round_n = 1,
                      readySet = [], cleanupTimer = None\<rparr>)],
          timers = [], next_timer = 0\<rparr>,
        [Reply_created ''00BE29''])"
proof -
  have a: "map_get ''00BE29'' (rooms two_seated) =
     Some \<lparr>players =
             [\<lparr>socketId = Some ''s1'', playerId = ''p1'', nickname = ''A'',
                symbol = Mark_X, points = 0\<rparr>,
              \<lparr>socketId = Some ''s2'', playerId = ''p2'', nickname = ''B'',
                symbol = Mark_O, points = 0\<rparr>],
           board = replicate 9 None, currentTurn = Mark_X, round_n = 1, readySet = [],
           cleanupTimer = None\<rparr>"
    by code_simp
  have b: "create_room ''s9'' ''C'' ''p9'' ''0.00be29'' two_seated =
       (\<lparr>rooms = [(''00BE29'',
                   \<lparr>players = [\<lparr>socketId = Some ''s9'', playerId = ''p9'', nickname = ''C'',
                                 symbol = Mark_X, points = 0\<rparr>],
                      board = replicate 9 None, currentTurn = Mark_X, round_n = 1,
                      readySet = [], cleanupTimer = None\<rparr>)],
          timers = [], next_timer = 0\<rparr>,
        [Reply_created ''00BE29''])"
    by code_simp
  from a b show ?thesis by (rule conjI)
qed

subsection \<open>Round over, once per round\<close>

text \<open>
  Claim C2 at a failing run. X completes the top row with cells 5 to 8 free: round-over
  is broadcast and X has 1 point. The handler has no guard for a round that is over, so
  O's move to cell 5 is accepted; the win detector finds X's row again, X gets a second
  point and round-over is broadcast a second time, both in round 1.
\<close>

theorem round_over_twice_in_round_one:
  "filter is_round_over (snd (run move_after_win init_server)) =
     [Round_over ''00BE29'' (Some Mark_X) (Some [0, 1, 2]) 1
        [\<lparr>socketId = Some ''s1'', playerId = ''p1'', nickname = ''A'',
           symbol = Mark_X, points = 1\<rparr>,
         \<lparr>socketId = Some ''s2'', playerId = ''p2'', nickname = ''B'',
           symbol = Mark_O, points = 0\<rparr>]
        [Some Mark_X, Some Mark_X, Some Mark_X, Some Mark_O, Some Mark_O,
         None, None, None, None] 2,
      Round_over ''00BE29'' (Some Mark_X) (Some [0, 1, 2]) 1
        [\<lparr>socketId = Some ''s1'', playerId = ''p1'', nickname = ''A'',
           symbol = Mark_X, points = 2\<rparr>,
         \<lparr>socketId = Some ''s2'', playerId = ''p2'', nickname = ''B'',
           symbol = Mark_O, points = 0\<rparr>]
        [Some Mark_X, Some Mark_X, Some Mark_X, Some Mark_O, Some Mark_O,
         Some Mark_O, None, None, None] 5]"
  by code_simp

theorem round_over_twice_in_round_one_witness:
  "length (filter is_round_over (snd (run move_after_win init_server))) = 2"
  using round_over_twice_in_round_one by simp

subsection \<open>Acknowledgments\<close>

text \<open>
  Claim C3 at a failing run. After the first round, socket s1 acknowledges and then
  closes: the disconnect handler clears the seat's socket id and leaves s1 in readySet,
  which now holds an id of no connected seat. The player rejoins on socket s3 and
  acknowledges again: readySet reaches size 2 and round 2 starts, although the seat of
  O (socket s2) has never acknowledged.
\<close>

theorem readySet_keeps_closed_socket:
  "map_get ''00BE29'' (rooms (fst (run ack_then_leave init_server))) =
     Some \<lparr>players =
             [\<lparr>socketId = None, playerId = ''p1'', nickname = ''A'',
                symbol = Mark_X, points = 1\<rparr>,
              \<lparr>socketId = Some ''s2'', playerId = ''p2'', nickname = ''B'',
                symbol = Mark_O, points = 0\<rparr>],
           board = [Some Mark_X, Some Mark_X, Some Mark_X, Some Mark_O, Some Mark_O,
                    None, None, None, None],
           currentTurn = Mark_O, round_n = 1, readySet = [''s1''], cleanupTimer = None\<rparr>
   \<and> map_get ''00BE29'' (rooms (fst (run ack_twice init_server))) =
     Some \<lparr>players =
             [\<lparr>socketId = Some ''s3'', playerId = ''p1'', nickname = ''A'',
                symbol = Mark_X, points = 1\<rparr>,
              \<lparr>socketId = Some ''s2'', playerId = ''p2'', nickname = ''B'',
                symbol = Mark_O, points = 0\<rparr>],
           board = replicate 9 None,
           currentTurn = Mark_O, round_n = 2, readySet = [], cleanupTimer = None\<rparr>"
  by code_simp

theorem readySet_keeps_closed_socket_witness:
  "\<exists>r. map_get ''00BE29'' (rooms (fst (run ack_then_leave init_server))) = Some r
       \<and> readySet r = [''s1'']
       \<and> filter (\<lambda>p. socketId p = Some ''s1'') (players r) = []"
  using readySet_keeps_closed_socket by simp

subsection \<open>Idle cleanup\<close>

lemma timers_ok_iff:
  "timers_ok s \<longleftrightarrow>
     (\<forall>t k. (t, k) \<in> set (timers s) \<longrightarrow>
        (\<exists>r. map_get k (rooms s) = Some r \<and> cleanupTimer r = Some t))"
proof
  assume ok: "timers_ok s"
  show "\<forall>t k. (t, k) \<in> set (timers s) \<longrightarrow>
        (\<exists>r. map_get k (rooms s) = Some r \<and> cleanupTimer r = Some t)"
  proof (intro allI impI)
    fix t k assume "(t, k) \<in> set (timers s)"
    with ok have "case map_get (snd (t, k)) (rooms s) of
                     None \<Rightarrow> False
                   | Some r \<Rightarrow> cleanupTimer r = Some (fst (t, k))"
      unfolding timers_ok_def list_all_iff by blast
    then show "\<exists>r. map_get k (rooms s) = Some r \<and> cleanupTimer r = Some t"
      by (simp split: option.splits)
  qed
next
  assume a: "\<forall>t k. (t, k) \<in> set (timers s) \<longrightarrow>
        (\<exists>r. map_get k (rooms s) = Some r \<and> cleanupTimer r = Some t)"
  show "timers_ok s"
    unfolding timers_ok_def list_all_iff
  proof
    fix e assume "e \<in> set (timers s)"
    then have "(fst e, snd e) \<in> set (timers s)" by simp
    with a obtain r where "map_get (snd e) (rooms s) = Some r" "cleanupTimer r = Some (fst e)"
      by blast
    then show "case map_get (snd e) (rooms s) of
                     None \<Rightarrow> False
                   | Some r \<Rightarrow> cleanupTimer r = Some (fst e)"
      by simp
  qed
qed

lemma map_get_map_delete_same: "map_get k (map_delete k m) = None"
  by (induction m) (auto simp: map_get_def map_delete_def)

lemma map_get_map_delete_other: "k' \<noteq> k \<Longrightarrow> map_get k' (map_delete k m) = map_get k' m"
  by (induction m) (auto simp: map_get_def map_delete_def)

lemma timers_ok_set_room:
  assumes "timers_ok s" "map_get k (rooms s) = Some r" "cleanupTimer r' = cleanupTimer r"
  shows "timers_ok (s\<lparr>rooms := map_set k r' (rooms s)\<rparr>)"
  unfolding timers_ok_iff
proof (intro allI impI)
  fix t k'
  assume "(t, k') \<in> set (timers (s\<lparr>rooms := map_set k r' (rooms s)\<rparr>))"
  then have "(t, k') \<in> set (timers s)" by simp
  with assms(1) obtain r0 where r0: "map_get k' (rooms s) = Some r0" "cleanupTimer r0 = Some t"
    unfolding timers_ok_iff by blast
  show "\<exists>r. map_get k' (rooms (s\<lparr>rooms := map_set k r' (rooms s)\<rparr>)) = Some r
           \<and> cleanupTimer r = Some t"
  proof (cases "k' = k")
    case True
    with r0 assms(2,3) show ?thesis by (simp add: map_get_map_set_same)
  next
    case False
    with r0 show ?thesis by (simp add: map_get_map_set_other)
  qed
qed

lemma timers_ok_new_room:
  assumes "timers_ok s" "pending_for k s = []"
  shows "timers_ok (s\<lparr>rooms := map_set k r' (rooms s)\<rparr>)"
  unfolding timers_ok_iff
proof (intro allI impI)
  fix t k'
  assume "(t, k') \<in> set (timers (s\<lparr>rooms := map_set k r' (rooms s)\<rparr>))"
  then have mem: "(t, k') \<in> set (timers s)" by simp
  with assms(1) obtain r0 where r0: "map_get k' (rooms s) = Some r0" "cleanupTimer r0 = Some t"
    unfolding timers_ok_iff by blast
  from assms(2) mem have "k' \<noteq> k"
    by (auto simp: pending_for_def filter_empty_conv)
  with r0 show "\<exists>r. map_get k' (rooms (s\<lparr>rooms := map_set k r' (rooms s)\<rparr>)) = Some r
           \<and> cleanupTimer r = Some t"
    by (simp add: map_get_map_set_other)
qed

text \<open>Cancelling the room's own timeout: no pending timeout for the room is left.\<close>

lemma timers_ok_cancel:
  assumes "timers_ok s" "map_get k (rooms s) = Some r" "cleanupTimer r' = None"
  shows "timers_ok (s\<lparr>rooms := map_set k r' (rooms s),
                     timers := clearTimeout (cleanupTimer r) (timers s)\<rparr>)"
  unfolding timers_ok_iff
proof (intro allI impI)
  fix t k'
  let ?s' = "s\<lparr>rooms := map_set k r' (rooms s),
                timers := clearTimeout (cleanupTimer r) (timers s)\<rparr>"
  assume a: "(t, k') \<in> set (timers ?s')"
  then have mem: "(t, k') \<in> set (timers s)"
    by (auto simp: clearTimeout_def split: option.splits)
  with assms(1) obtain r0 where r0: "map_get k' (rooms s) = Some r0" "cleanupTimer r0 = Some t"
    unfolding timers_ok_iff by blast
  have "k' \<noteq> k"
  proof
    assume "k' = k"
    with r0 assms(2) have "cleanupTimer r = Some t" by simp
    with a show False by (simp add: clearTimeout_def)
  qed
  with r0 show "\<exists>r. map_get k' (rooms ?s') = Some r \<and> cleanupTimer r = Some t"
    by (simp add: map_get_map_set_other)
qed

lemma pending_for_cancel:
  assumes "timers_ok s" "map_get k (rooms s) = Some r"
  shows "filter (\<lambda>e. snd e = k) (clearTimeout (cleanupTimer r) (timers s)) = []"
proof -
  have "\<forall>e \<in> set (clearTimeout (cleanupTimer r) (timers s)). snd e \<noteq> k"
  proof
    fix e assume a: "e \<in> set (clearTimeout (cleanupTimer r) (timers s))"
    then have "(fst e, snd e) \<in> set (timers s)"
      by (auto simp: clearTimeout_def split: option.splits)
    with assms(1) obtain r0 where r0: "map_get (snd e) (rooms s) = Some r0"
        "cleanupTimer r0 = Some (fst e)"
      unfolding timers_ok_iff by blast
    show "snd e \<noteq> k"
    proof
      assume "snd e = k"
      with r0 assms(2) have "cleanupTimer r = Some (fst e)" by simp
      with a show False by (simp add: clearTimeout_def)
    qed
  qed
  then show ?thesis by (simp add: filter_empty_conv)
qed

lemma timers_ok_scheduleRoomCleanup:
  assumes "timers_ok s"
  shows "timers_ok (scheduleRoomCleanup k s)"
proof (cases "map_get k (rooms s)")
  case None
  with assms show ?thesis by (simp add: scheduleRoomCleanup_def)
next
  case (Some r)
  note r = this
  show ?thesis
  proof (cases "cleanupTimer r")
    case (Some t)
    with r assms show ?thesis by (simp add: scheduleRoomCleanup_def)
  next
    case None
    let ?n = "next_timer s"
    let ?s' = "s\<lparr>rooms := map_set k (r\<lparr>cleanupTimer := Some ?n\<rparr>) (rooms s),
                  timers := timers s @ [(?n, k)], next_timer := Suc ?n\<rparr>"
    have eq: "scheduleRoomCleanup k s = ?s'"
      using r None by (simp add: scheduleRoomCleanup_def)
    have "timers_ok ?s'"
      unfolding timers_ok_iff
    proof (intro allI impI)
      fix t k'
      assume a: "(t, k') \<in> set (timers ?s')"
      show "\<exists>r. map_get k' (rooms ?s') = Some r \<and> cleanupTimer r = Some t"
      proof (cases "(t, k') = (?n, k)")
        case True
        then show ?thesis by (simp add: map_get_map_set_same)
      next
        case False
        with a have "(t, k') \<in> set (timers s)" by auto
        with assms obtain r0 where r0: "map_get k' (rooms s) = Some r0"
            "cleanupTimer r0 = Some t"
          unfolding timers_ok_iff by blast
        with r None have "k' \<noteq> k" by auto
        with r0 show ?thesis by (simp add: map_get_map_set_other)
      qed
    qed
    with eq show ?thesis by simp
  qed
qed

lemma timers_ok_create_room:
  assumes "timers_ok s" "fresh_id (Create_room sock nick pid rnd36) s"
  shows "timers_ok (fst (create_room sock nick pid rnd36 s))"
proof (cases "nick = [] \<or> pid = []")
  case True
  with assms(1) show ?thesis by (simp add: create_room_def)
next
  case False
  with assms(2) have "pending_for (generateRoomId rnd36) s = []"
    by (simp add: fresh_id_def)
  from timers_ok_new_room [OF assms(1) this] False show ?thesis
    by (simp add: create_room_def Let_def)
qed

lemma timers_ok_join_room:
  assumes "timers_ok s"
  shows "timers_ok (fst (join_room sock nick pid roomId s))"
proof (cases "map_get roomId (rooms s)")
  case None
  with assms show ?thesis by (simp add: join_room_def)
next
  case (Some r)
  with assms show ?thesis
    by (simp add: join_room_def Let_def timers_ok_set_room)
qed

lemma timers_ok_rejoin_room:
  assumes "timers_ok s"
  shows "timers_ok (fst (rejoin_room sock roomId pid s))"
proof (cases "map_get roomId (rooms s)")
  case None
  with assms show ?thesis by (simp add: rejoin_room_def)
next
  case (Some r)
  with assms show ?thesis
    by (simp add: rejoin_room_def Let_def timers_ok_cancel split: option.split)
qed

lemma make_move_effect:
  "make_move sock roomId index s = (s, []) \<or>
   (\<exists>r r' out. map_get roomId (rooms s) = Some r \<and> cleanupTimer r' = cleanupTimer r
       \<and> round_n r' = round_n r
       \<and> make_move sock roomId index s = (s\<lparr>rooms := map_set roomId r' (rooms s)\<rparr>, out))"
proof (cases "\<exists>r p i. map_get roomId (rooms s) = Some r
                  \<and> find (\<lambda>p. socketId p = Some sock) (players r) = Some p
                  \<and> index = JInt (int i) \<and> i \<le> 8
                  \<and> board_at (board r) i = Some None
                  \<and> symbol p = currentTurn r")
  case False
  from make_move_illegal [OF False] show ?thesis by simp
next
  case True
  then obtain r p i where g: "map_get roomId (rooms s) = Some r"
      "find (\<lambda>p. socketId p = Some sock) (players r) = Some p"
      "index = JInt (int i)" "i \<le> 8" "board_at (board r) i = Some None"
      "symbol p = currentTurn r"
    by blast
  let ?brd = "(board r)[i := Some (symbol p)]"
  let ?turn = "if symbol p = Mark_X then Mark_O else Mark_X"
  let ?res = "checkWinner ?brd"
  let ?over = "winner ?res \<noteq> None \<or> list_all (\<lambda>c. c \<noteq> None) ?brd"
  let ?ps = "case winner ?res of
               Some w \<Rightarrow> update_first (\<lambda>q. symbol q = w)
                           (\<lambda>q. q\<lparr>points := points q + 1\<rparr>) (players r)
             | None \<Rightarrow> players r"
  let ?r' = "r\<lparr>players := (if ?over then ?ps else players r), board := ?brd,
               currentTurn := ?turn, readySet := (if ?over then [] else readySet r)\<rparr>"
  have "fst (make_move sock roomId index s) = s\<lparr>rooms := map_set roomId ?r' (rooms s)\<rparr>"
    unfolding g(3) make_move_legal_eq [OF g(1,2,4,5,6)] Let_def by simp
  then have "make_move sock roomId index s =
      (s\<lparr>rooms := map_set roomId ?r' (rooms s)\<rparr>, snd (make_move sock roomId index s))"
    by (metis prod.collapse)
  moreover have "cleanupTimer ?r' = cleanupTimer r" "round_n ?r' = round_n r" by simp_all
  ultimately show ?thesis using g(1) by blast
qed

lemma timers_ok_make_move:
  assumes "timers_ok s"
  shows "timers_ok (fst (make_move sock roomId index s))"
  using make_move_effect [of sock roomId index s]
proof (elim disjE exE conjE)
  assume "make_move sock roomId index s = (s, [])"
  with assms show ?thesis by simp
next
  fix r r' out
  assume "map_get roomId (rooms s) = Some r" "cleanupTimer r' = cleanupTimer r"
    "make_move sock roomId index s = (s\<lparr>rooms := map_set roomId r' (rooms s)\<rparr>, out)"
  with assms show ?thesis by (simp add: timers_ok_set_room)
qed

lemma timers_ok_ready_next_round:
  assumes "timers_ok s"
  shows "timers_ok (fst (ready_next_round sock roomId s))"
proof (cases "map_get roomId (rooms s)")
  case None
  with assms show ?thesis by (simp add: ready_next_round_def)
next
  case (Some r)
  with assms show ?thesis
    by (simp add: ready_next_round_def Let_def timers_ok_set_room)
qed

lemma timers_ok_reset_scores:
  assumes "timers_ok s"
  shows "timers_ok (fst (reset_scores roomId s))"
proof (cases "map_get roomId (rooms s)")
  case None
  with assms show ?thesis by (simp add: reset_scores_def)
next
  case (Some r)
  with assms show ?thesis
    by (simp add: reset_scores_def Let_def timers_ok_set_room)
qed

lemma map_get_distinct: "distinct (map fst m) \<Longrightarrow> (k, v) \<in> set m \<Longrightarrow> map_get k m = Some v"
  by (simp add: map_get_def)

lemma timers_ok_disconnect:
  assumes "server_ok s" "timers_ok s"
  shows "timers_ok (fst (disconnect sock s))"
  using disconnect_loop_cases [of sock "rooms s" s]
proof (elim disjE exE conjE)
  assume "disconnect_loop sock (rooms s) s = (s, [])"
  with assms show ?thesis by (simp add: disconnect_def)
next
  fix roomId r p
  assume mem: "(roomId, r) \<in> set (rooms s)"
    and eq: "disconnect_loop sock (rooms s) s =
          (let r' = r\<lparr>players := update_first (\<lambda>p. socketId p = Some sock)
                                   (\<lambda>p. p\<lparr>socketId := None\<rparr>) (players r)\<rparr>;
               s' = s\<lparr>rooms := map_set roomId r' (rooms s)\<rparr>
           in (if activePlayersCount r' = 0 then scheduleRoomCleanup roomId s' else s',
               [Player_left roomId (playerId p) (nickname p) (symbol p)]))"
  from assms(1) mem have get: "map_get roomId (rooms s) = Some r"
    by (simp add: server_ok_def map_get_distinct)
  from timers_ok_set_room [OF assms(2) get, of "r\<lparr>players := update_first (\<lambda>p. socketId p = Some sock)
                                   (\<lambda>p. p\<lparr>socketId := None\<rparr>) (players r)\<rparr>"]
  show ?thesis
    unfolding disconnect_def eq Let_def by (simp add: timers_ok_scheduleRoomCleanup)
qed

lemma timers_ok_timer_fire:
  assumes "timers_ok s"
  shows "timers_ok (timer_fire t s)"
proof (cases "map_of (timers s) t")
  case None
  with assms show ?thesis by (simp add: timer_fire_def)
next
  case (Some k)
  then have mem: "(t, k) \<in> set (timers s)" by (rule map_of_SomeD)
  with assms obtain r where r: "map_get k (rooms s) = Some r" "cleanupTimer r = Some t"
    unfolding timers_ok_iff by blast
  let ?s1 = "s\<lparr>timers := filter (\<lambda>e. fst e \<noteq> t) (timers s)\<rparr>"
  have ok1: "timers_ok ?s1"
    using assms unfolding timers_ok_iff by simp
  have r1: "map_get k (rooms ?s1) = Some r" using r(1) by simp
  show ?thesis
  proof (cases "activePlayersCount r = 0")
    case False
    from timers_ok_cancel [OF ok1 r1, of "r\<lparr>cleanupTimer := None\<rparr>"] False Some r
    show ?thesis
      by (simp add: timer_fire_def cleanup_callback_def)
  next
    case True
    have "timers_ok (?s1\<lparr>rooms := map_delete k (rooms ?s1)\<rparr>)"
      unfolding timers_ok_iff
    proof (intro allI impI)
      fix t' k'
      assume "(t', k') \<in> set (timers (?s1\<lparr>rooms := map_delete k (rooms ?s1)\<rparr>))"
      then have a: "(t', k') \<in> set (timers s)" "t' \<noteq> t" by auto
      with assms obtain r0 where r0: "map_get k' (rooms s) = Some r0" "cleanupTimer r0 = Some t'"
        unfolding timers_ok_iff by blast
      with r a(2) have "k' \<noteq> k" by auto
      with r0 show "\<exists>r. map_get k' (rooms (?s1\<lparr>rooms := map_delete k (rooms ?s1)\<rparr>)) = Some r
           \<and> cleanupTimer r = Some t'"
        by (simp add: map_get_map_delete_other)
    qed
    with True Some r show ?thesis
      by (simp add: timer_fire_def cleanup_callback_def)
  qed
qed

lemma timers_ok_step:
  "server_ok s \<Longrightarrow> timers_ok s \<Longrightarrow> fresh_id e s \<Longrightarrow> timers_ok (fst (step e s))"
  by (cases e)
     (simp_all add: timers_ok_create_room timers_ok_join_room timers_ok_rejoin_room
        timers_ok_make_move timers_ok_ready_next_round timers_ok_reset_scores
        timers_ok_disconnect timers_ok_timer_fire)

lemma reachable_fresh_reachable: "reachable_fresh s \<Longrightarrow> reachable s"
  by (induction rule: reachable_fresh.induct) (auto intro: reachable.intros)

lemma reachable_fresh_timers_ok: "reachable_fresh s \<Longrightarrow> timers_ok s"
proof (induction rule: reachable_fresh.induct)
  case reachable_fresh_init
  show ?case by (simp add: timers_ok_def init_server_def)
next
  case (reachable_fresh_step s e)
  from reachable_fresh_reachable [OF reachable_fresh_step(1)] have "server_ok s"
    by (rule reachable_server_ok)
  with reachable_fresh_step show ?case by (simp add: timers_ok_step)
qed

lemma reachable_fresh_run:
  "reachable_fresh s \<Longrightarrow> fresh_run es s \<Longrightarrow> reachable_fresh (fst (run es s))"
proof (induction es arbitrary: s)
  case Nil
  then show ?case by simp
next
  case (Cons e es)
  from Cons.prems have "reachable_fresh (fst (step e s))" "fresh_run es (fst (step e s))"
    by (auto intro: reachable_fresh_step)
  from Cons.IH [OF this] show ?case by (simp only: fst_run_Cons)
qed

text \<open>The five parts of the cleanup claim, on well-formed states.\<close>

lemma same_key_short:
  "distinct (map f xs) \<Longrightarrow> \<forall>x \<in> set xs. f x = c \<Longrightarrow> length xs \<le> 1"
proof (cases xs)
  case Nil
  then show ?thesis by simp
next
  case (Cons x ys)
  assume d: "distinct (map f xs)" and c: "\<forall>x \<in> set xs. f x = c"
  show ?thesis
  proof (cases ys)
    case Nil
    with Cons show ?thesis by simp
  next
    case (Cons y zs)
    with \<open>xs = x # ys\<close> c have "f x = f y" by simp
    with d \<open>xs = x # ys\<close> Cons show ?thesis by simp
  qed
qed

lemma pending_at_most_one:
  assumes "server_ok s" "timers_ok s"
  shows "length (pending_for k s) \<le> 1"
proof (cases "pending_for k s")
  case Nil
  then show ?thesis by simp
next
  case (Cons e es)
  then have "e \<in> set (pending_for k s)" by simp
  then have "(fst e, k) \<in> set (timers s)" by (auto simp: pending_for_def)
  with assms(2) obtain r where r: "map_get k (rooms s) = Some r" "cleanupTimer r = Some (fst e)"
    unfolding timers_ok_iff by blast
  have all: "\<forall>x \<in> set (pending_for k s). fst x = fst e"
  proof
    fix x assume "x \<in> set (pending_for k s)"
    then have "(fst x, k) \<in> set (timers s)" by (auto simp: pending_for_def)
    with assms(2) obtain r0 where "map_get k (rooms s) = Some r0" "cleanupTimer r0 = Some (fst x)"
      unfolding timers_ok_iff by blast
    with r show "fst x = fst e" by simp
  qed
  from assms(1) have "distinct (map fst (pending_for k s))"
    by (simp add: server_ok_def pending_for_def distinct_map_filter)
  from same_key_short [OF this all] show ?thesis .
qed

lemma scheduleRoomCleanup_noop:
  "map_get k (rooms s) = Some r \<Longrightarrow> cleanupTimer r = Some t \<Longrightarrow> scheduleRoomCleanup k s = s"
  by (simp add: scheduleRoomCleanup_def)

lemma set_clearTimeout: "set (clearTimeout h ts) \<subseteq> set ts"
  by (cases h) (auto simp: clearTimeout_def)

lemma timers_rejoin_room: "set (timers (fst (rejoin_room sock roomId pid s))) \<subseteq> set (timers s)"
  using set_clearTimeout
  by (auto simp: rejoin_room_def Let_def split: option.splits)

lemma timers_timer_fire: "set (timers (timer_fire t s)) \<subseteq> set (timers s)"
proof (cases "map_of (timers s) t")
  case None
  then show ?thesis by (simp add: timer_fire_def)
next
  case (Some k)
  let ?s1 = "s\<lparr>timers := filter (\<lambda>e. fst e \<noteq> t) (timers s)\<rparr>"
  have "set (timers (cleanup_callback k ?s1)) \<subseteq> set (timers ?s1)"
  proof (cases "map_get k (rooms s)")
    case None
    then show ?thesis by (simp add: cleanup_callback_def)
  next
    case (Some r)
    show ?thesis
    proof (cases "activePlayersCount r = 0")
      case True
      with Some show ?thesis by (simp add: cleanup_callback_def)
    next
      case False
      with Some set_clearTimeout [of "cleanupTimer r" "timers ?s1"] show ?thesis
        by (simp add: cleanup_callback_def)
    qed
  qed
  moreover have "set (timers ?s1) \<subseteq> set (timers s)" by auto
  ultimately have "set (timers (cleanup_callback k ?s1)) \<subseteq> set (timers s)"
    by (rule subset_trans)
  with Some show ?thesis by (simp add: timer_fire_def)
qed

lemma timers_make_move: "timers (fst (make_move sock roomId index s)) = timers s"
  using make_move_effect [of sock roomId index s] by auto

lemma count_update_first:
  "find P xs = Some p \<Longrightarrow> (\<And>x. P x \<Longrightarrow> Q x \<and> \<not> Q (f x)) \<Longrightarrow>
   Suc (length (filter Q (update_first P f xs))) = length (filter Q xs)"
  by (induction xs) (auto split: if_splits)

lemma disconnect_arms:
  assumes ok: "server_ok s"
    and new: "(t, k) \<in> set (timers (fst (disconnect sock s)))" "(t, k) \<notin> set (timers s)"
  shows "\<exists>r r'. map_get k (rooms s) = Some r \<and> activePlayersCount r = 1
           \<and> map_get k (rooms (fst (disconnect sock s))) = Some r'
           \<and> activePlayersCount r' = 0"
  using disconnect_loop_cases [of sock "rooms s" s]
proof (elim disjE exE conjE)
  assume "disconnect_loop sock (rooms s) s = (s, [])"
  with new show ?thesis by (simp add: disconnect_def)
next
  fix roomId r p
  assume mem: "(roomId, r) \<in> set (rooms s)"
    and seat: "find (\<lambda>p. socketId p = Some sock) (players r) = Some p"
    and eq: "disconnect_loop sock (rooms s) s =
          (let r' = r\<lparr>players := update_first (\<lambda>p. socketId p = Some sock)
                                   (\<lambda>p. p\<lparr>socketId := None\<rparr>) (players r)\<rparr>;
               s' = s\<lparr>rooms := map_set roomId r' (rooms s)\<rparr>
           in (if activePlayersCount r' = 0 then scheduleRoomCleanup roomId s' else s',
               [Player_left roomId (playerId p) (nickname p) (symbol p)]))"
  let ?r1 = "r\<lparr>players := update_first (\<lambda>p. socketId p = Some sock)
                                   (\<lambda>p. p\<lparr>socketId := None\<rparr>) (players r)\<rparr>"
  let ?s1 = "s\<lparr>rooms := map_set roomId ?r1 (rooms s)\<rparr>"
  from ok mem have get: "map_get roomId (rooms s) = Some r"
    by (simp add: server_ok_def map_get_distinct)
  have res: "fst (disconnect sock s) =
      (if activePlayersCount ?r1 = 0 then scheduleRoomCleanup roomId ?s1 else ?s1)"
    unfolding disconnect_def eq Let_def by simp
  have cnt: "Suc (activePlayersCount ?r1) = activePlayersCount r"
    unfolding activePlayersCount_def using count_update_first [OF seat] by simp
  have zero: "activePlayersCount ?r1 = 0"
  proof (rule ccontr)
    assume "activePlayersCount ?r1 \<noteq> 0"
    with res new show False by simp
  qed
  have get1: "map_get roomId (rooms ?s1) = Some ?r1"
    by (simp add: map_get_map_set_same)
  have none: "cleanupTimer ?r1 = None"
  proof (rule ccontr)
    assume "cleanupTimer ?r1 \<noteq> None"
    then obtain t' where "cleanupTimer ?r1 = Some t'" by blast
    from scheduleRoomCleanup_noop [OF get1 this] res zero new show False by simp
  qed
  with get1 have sch: "scheduleRoomCleanup roomId ?s1 =
      ?s1\<lparr>rooms := map_set roomId (?r1\<lparr>cleanupTimer := Some (next_timer ?s1)\<rparr>) (rooms ?s1),
           timers := timers ?s1 @ [(next_timer ?s1, roomId)],
           next_timer := Suc (next_timer ?s1)\<rparr>"
    by (simp add: scheduleRoomCleanup_def)
  from new res zero have k: "k = roomId"
    unfolding sch by auto
  have "map_get roomId (rooms (fst (disconnect sock s))) =
      Some (?r1\<lparr>cleanupTimer := Some (next_timer ?s1)\<rparr>)"
    unfolding res sch using zero by (simp add: map_get_map_set_same)
  moreover have "activePlayersCount (?r1\<lparr>cleanupTimer := Some (next_timer ?s1)\<rparr>) = 0"
    using zero by (simp add: activePlayersCount_def)
  moreover from cnt zero have "activePlayersCount r = 1" by simp
  ultimately show ?thesis using get k by blast
qed

lemma armed_only_by_disconnect:
  assumes ok: "server_ok s"
    and new: "(t, k) \<in> set (timers (fst (step e s)))" "(t, k) \<notin> set (timers s)"
  shows "\<exists>sock r r'. e = Disconnect sock \<and> map_get k (rooms s) = Some r
           \<and> activePlayersCount r = 1
           \<and> map_get k (rooms (fst (step e s))) = Some r'
           \<and> activePlayersCount r' = 0"
proof (cases e)
  case (Create_room sock nick pid rnd36)
  with new show ?thesis by (simp add: create_room_def Let_def split: if_splits)
next
  case (Join_room sock nick pid roomId)
  with new show ?thesis
    by (simp add: join_room_def Let_def split: option.splits if_splits)
next
  case (Rejoin_room sock roomId pid)
  with new timers_rejoin_room [of sock roomId pid s] show ?thesis by auto
next
  case (Make_move sock roomId index)
  with new show ?thesis by (simp add: timers_make_move)
next
  case (Ready_next_round sock roomId)
  with new show ?thesis
    by (simp add: ready_next_round_def Let_def split: option.splits if_splits)
next
  case (Reset_scores roomId)
  with new show ?thesis
    by (simp add: reset_scores_def Let_def split: option.splits)
next
  case (Disconnect sock)
  with new have "(t, k) \<in> set (timers (fst (disconnect sock s)))" by simp
  from disconnect_arms [OF ok this new(2)] Disconnect show ?thesis by simp
next
  case (Timeout t')
  with new timers_timer_fire [of t' s] show ?thesis by auto
qed

lemma expiry_deletes_iff:
  assumes ok: "server_ok s"
    and pend: "(t, k) \<in> set (timers s)" and r: "map_get k (rooms s) = Some r"
  shows "(map_get k (rooms (timer_fire t s)) = None) = (activePlayersCount r = 0)"
proof -
  from ok pend have "map_of (timers s) t = Some k"
    by (simp add: server_ok_def)
  with r show ?thesis
    by (simp add: timer_fire_def cleanup_callback_def map_get_map_delete_same
          map_get_map_set_same)
qed

lemma room_survives_other_timeouts:
  assumes "pending_for k s = []" "map_get k (rooms s) \<noteq> None"
  shows "map_get k (rooms (timer_fire t s)) \<noteq> None"
proof (cases "map_of (timers s) t")
  case None
  with assms show ?thesis by (simp add: timer_fire_def)
next
  case (Some k')
  then have "(t, k') \<in> set (timers s)" by (rule map_of_SomeD)
  with assms(1) have "k' \<noteq> k"
    by (auto simp: pending_for_def filter_empty_conv)
  with Some assms(2) show ?thesis
    by (auto simp: timer_fire_def cleanup_callback_def map_get_map_delete_other
          map_get_map_set_other split: option.splits)
qed

lemma rejoin_cancels:
  assumes ok: "timers_ok s"
    and succ: "snd (rejoin_room sock k pid s) = [Reply_snapshot snap]"
  shows "pending_for k (fst (rejoin_room sock k pid s)) = []
       \<and> (\<forall>t. map_get k (rooms (timer_fire t (fst (rejoin_room sock k pid s)))) \<noteq> None)"
proof -
  from succ obtain r p where r: "map_get k (rooms s) = Some r"
    and p: "find (\<lambda>p. playerId p = pid) (players r) = Some p"
    by (auto simp: rejoin_room_def split: option.splits)
  let ?s' = "fst (rejoin_room sock k pid s)"
  from r p have tm: "timers ?s' = clearTimeout (cleanupTimer r) (timers s)"
    and live: "map_get k (rooms ?s') \<noteq> None"
    by (simp_all add: rejoin_room_def Let_def map_get_map_set_same)
  from pending_for_cancel [OF ok r] tm have none: "pending_for k ?s' = []"
    by (simp add: pending_for_def)
  from room_survives_other_timeouts [OF none live] none show ?thesis by blast
qed

text \<open>
  Claim C9, as the code has it. In every reachable state, a step adds a cleanup action
  for a room only when it is a disconnect that takes the room's count of connected seats
  from 1 to 0, and when a cleanup action fires, its room is deleted if and only if no
  seat is connected. In the states of a run that creates no room under an id with a
  pending cleanup action, moreover: a room has at most one pending cleanup action, every
  pending one is the room's \<open>cleanupTimer\<close>, and arming again while it is set changes
  nothing; after a successful rejoin no cleanup action for the room is pending, and no
  timeout that fires deletes the room.
\<close>

theorem idle_cleanup:
  assumes "reachable s"
  shows "(\<forall>e t. (t, roomId) \<in> set (timers (fst (step e s))) \<and> (t, roomId) \<notin> set (timers s) \<longrightarrow>
           (\<exists>sock r r'. e = Disconnect sock \<and> map_get roomId (rooms s) = Some r
                \<and> activePlayersCount r = 1
                \<and> map_get roomId (rooms (fst (step e s))) = Some r'
                \<and> activePlayersCount r' = 0))
     \<and> (\<forall>t r. (t, roomId) \<in> set (timers s) \<and> map_get roomId (rooms s) = Some r \<longrightarrow>
           (map_get roomId (rooms (timer_fire t s)) = None) = (activePlayersCount r = 0))
     \<and> (reachable_fresh s \<longrightarrow>
           length (pending_for roomId s) \<le> 1
         \<and> (\<forall>t. (t, roomId) \<in> set (timers s) \<longrightarrow>
               (\<exists>r. map_get roomId (rooms s) = Some r \<and> cleanupTimer r = Some t
                    \<and> scheduleRoomCleanup roomId s = s))
         \<and> (\<forall>sock pid snap. snd (rejoin_room sock roomId pid s) = [Reply_snapshot snap] \<longrightarrow>
               pending_for roomId (fst (rejoin_room sock roomId pid s)) = []
               \<and> (\<forall>t. map_get roomId
                          (rooms (timer_fire t (fst (rejoin_room sock roomId pid s)))) \<noteq> None)))"
proof -
  from assms have ok: "server_ok s"
    by (rule reachable_server_ok)
  have p3: "\<forall>e t. (t, roomId) \<in> set (timers (fst (step e s))) \<and> (t, roomId) \<notin> set (timers s) \<longrightarrow>
           (\<exists>sock r r'. e = Disconnect sock \<and> map_get roomId (rooms s) = Some r
                \<and> activePlayersCount r = 1
                \<and> map_get roomId (rooms (fst (step e s))) = Some r'
                \<and> activePlayersCount r' = 0)"
    using armed_only_by_disconnect [OF ok] by blast
  have p4: "\<forall>t r. (t, roomId) \<in> set (timers s) \<and> map_get roomId (rooms s) = Some r \<longrightarrow>
           (map_get roomId (rooms (timer_fire t s)) = None) = (activePlayersCount r = 0)"
    using expiry_deletes_iff [OF ok] by blast
  have fresh: "reachable_fresh s \<longrightarrow>
           length (pending_for roomId s) \<le> 1
         \<and> (\<forall>t. (t, roomId) \<in> set (timers s) \<longrightarrow>
               (\<exists>r. map_get roomId (rooms s) = Some r \<and> cleanupTimer r = Some t
                    \<and> scheduleRoomCleanup roomId s = s))
         \<and> (\<forall>sock pid snap. snd (rejoin_room sock roomId pid s) = [Reply_snapshot snap] \<longrightarrow>
               pending_for roomId (fst (rejoin_room sock roomId pid s)) = []
               \<and> (\<forall>t. map_get roomId
                          (rooms (timer_fire t (fst (rejoin_room sock roomId pid s)))) \<noteq> None))"
  proof
    assume "reachable_fresh s"
    then have tok: "timers_ok s"
      by (rule reachable_fresh_timers_ok)
    have p1: "length (pending_for roomId s) \<le> 1"
      using ok tok by (rule pending_at_most_one)
    have p2: "\<forall>t. (t, roomId) \<in> set (timers s) \<longrightarrow>
           (\<exists>r. map_get roomId (rooms s) = Some r \<and> cleanupTimer r = Some t
                \<and> scheduleRoomCleanup roomId s = s)"
    proof (intro allI impI)
      fix t assume "(t, roomId) \<in> set (timers s)"
      with tok obtain r where r: "map_get roomId (rooms s) = Some r" "cleanupTimer r = Some t"
        unfolding timers_ok_iff by blast
      with scheduleRoomCleanup_noop [OF r]
      show "\<exists>r. map_get roomId (rooms s) = Some r \<and> cleanupTimer r = Some t
                \<and> scheduleRoomCleanup roomId s = s"
        by blast
    qed
    have p5: "\<forall>sock pid snap. snd (rejoin_room sock roomId pid s) = [Reply_snapshot snap] \<longrightarrow>
           pending_for roomId (fst (rejoin_room sock roomId pid s)) = []
           \<and> (\<forall>t. map_get roomId (rooms (timer_fire t (fst (rejoin_room sock roomId pid s))))
                  \<noteq> None)"
      using rejoin_cancels [OF tok] by blast
    from p1 p2 p5 show "length (pending_for roomId s) \<le> 1
         \<and> (\<forall>t. (t, roomId) \<in> set (timers s) \<longrightarrow>
               (\<exists>r. map_get roomId (rooms s) = Some r \<and> cleanupTimer r = Some t
                    \<and> scheduleRoomCleanup roomId s = s))
         \<and> (\<forall>sock pid snap. snd (rejoin_room sock roomId pid s) = [Reply_snapshot snap] \<longrightarrow>
               pending_for roomId (fst (rejoin_room sock roomId pid s)) = []
               \<and> (\<forall>t. map_get roomId
                          (rooms (timer_fire t (fst (rejoin_room sock roomId pid s)))) \<noteq> None))"
      by (intro conjI)
  qed
  from p3 p4 fresh show ?thesis by (intro conjI)
qed

theorem idle_cleanup_witness:
  "reachable_fresh vacated
   \<and> pending_for ''00BE29'' vacated = [(0, ''00BE29'')]
   \<and> length (pending_for ''00BE29'' vacated) \<le> 1
   \<and> scheduleRoomCleanup ''00BE29'' vacated = vacated
   \<and> map_get ''00BE29'' (rooms (timer_fire 0 vacated)) = None
   \<and> pending_for ''00BE29'' (fst (rejoin_room ''s3'' ''00BE29'' ''p1'' vacated)) = []"
proof -
  have fr: "fresh_run (won_game @ [Disconnect ''s1'', Disconnect ''s2'']) init_server"
    by code_simp
  have re: "reachable_fresh vacated"
    unfolding vacated_def using reachable_fresh_init fr by (rule reachable_fresh_run)
  have pf: "pending_for ''00BE29'' vacated = [(0, ''00BE29'')]"
    by code_simp
  have tm: "(0, ''00BE29'') \<in> set (timers vacated)"
    by code_simp
  have fire: "map_get ''00BE29'' (rooms (timer_fire 0 vacated)) = None"
    by code_simp
  have succ: "snd (rejoin_room ''s3'' ''00BE29'' ''p1'' vacated) =
      [Reply_snapshot (Some
         \<lparr>snap_roomId = ''00BE29'', snap_round = 1, snap_currentTurn = Mark_O,
            snap_board = [Some Mark_X, Some Mark_X, Some Mark_X, Some Mark_O, Some Mark_O,
                          None, None, None, None],
            snap_players =
              [\<lparr>socketId = Some ''s3'', playerId = ''p1'', nickname = ''A'',
                 symbol = Mark_X, points = 1\<rparr>,
               \<lparr>socketId = None, playerId = ''p2'', nickname = ''B'',
                 symbol = Mark_O, points = 0\<rparr>]\<rparr>)]"
    by code_simp
  from re have "reachable vacated" by (rule reachable_fresh_reachable)
  from idle_cleanup [OF this, of "''00BE29''"] re
  have t: "length (pending_for ''00BE29'' vacated) \<le> 1
         \<and> (\<forall>t. (t, ''00BE29'') \<in> set (timers vacated) \<longrightarrow>
               (\<exists>r. map_get ''00BE29'' (rooms vacated) = Some r \<and> cleanupTimer r = Some t
                    \<and> scheduleRoomCleanup ''00BE29'' vacated = vacated))
         \<and> (\<forall>sock pid snap. snd (rejoin_room sock ''00BE29'' pid vacated) = [Reply_snapshot snap] \<longrightarrow>
               pending_for ''00BE29'' (fst (rejoin_room sock ''00BE29'' pid vacated)) = []
               \<and> (\<forall>t. map_get ''00BE29''
                          (rooms (timer_fire t (fst (rejoin_room sock ''00BE29'' pid vacated)))) \<noteq> None))"
    by blast
  from t have a: "length (pending_for ''00BE29'' vacated) \<le> 1" by blast
  from t tm have b: "scheduleRoomCleanup ''00BE29'' vacated = vacated" by blast
  from t succ have c: "pending_for ''00BE29'' (fst (rejoin_room ''s3'' ''00BE29'' ''p1'' vacated)) = []"
    by blast
  from re pf a b fire c show ?thesis by (intro conjI)
qed

text \<open>
  Socket s1 creates room 00BE29 and closes: a cleanup action is armed. Socket s2 creates
  a room while the random number repeats: the new room takes the id, with no
  \<open>cleanupTimer\<close>. Socket s2 closes: a second cleanup action is armed for the same id
  while the first is still pending.
\<close>

theorem two_pending_cleanups_counterexample:
  "reachable (fst (run reused_id init_server))
   \<and> pending_for ''00BE29'' (fst (run reused_id init_server)) = [(0, ''00BE29''), (1, ''00BE29'')]
   \<and> map_get ''00BE29'' (rooms (fst (run reused_id init_server))) =
       Some \<lparr>players = [\<lparr>socketId = None, playerId = ''p2'', nickname = ''B'',
                           symbol = Mark_X, points = 0\<rparr>],
             board = replicate 9 None, currentTurn = Mark_X, round_n = 1, readySet = [],
             cleanupTimer = Some 1\<rparr>"
proof -
  have a: "reachable (fst (run reused_id init_server))"
    by (intro reachable_run reachable_init)
  have b: "pending_for ''00BE29'' (fst (run reused_id init_server)) =
      [(0, ''00BE29''), (1, ''00BE29'')]"
    by code_simp
  have c: "map_get ''00BE29'' (rooms (fst (run reused_id init_server))) =
       Some \<lparr>players = [\<lparr>socketId = None, playerId = ''p2'', nickname = ''B'',
                           symbol = Mark_X, points = 0\<rparr>],
             board = replicate 9 None, currentTurn = Mark_X, round_n = 1, readySet = [],
             cleanupTimer = Some 1\<rparr>"
    by code_simp
  from a b c show ?thesis by (intro conjI)
qed

subsection \<open>The round changes in the ready handler only\<close>

lemma round_map_set:
  assumes "map_get k (map_set k0 r0' m) = Some r'" "map_get k m = Some r"
    and "map_get k0 m = Some r0" "round_n r0' = round_n r0"
  shows "round_n r' = round_n r"
proof (cases "k = k0")
  case True
  with assms show ?thesis by (simp add: map_get_map_set_same)
next
  case False
  with assms show ?thesis by (simp add: map_get_map_set_other)
qed

lemma round_scheduleRoomCleanup:
  assumes "map_get k (rooms (scheduleRoomCleanup k0 s)) = Some r'" "map_get k (rooms s) = Some r"
  shows "round_n r' = round_n r"
proof (cases "map_get k0 (rooms s)")
  case None
  with assms show ?thesis by (simp add: scheduleRoomCleanup_def)
next
  case (Some r0)
  show ?thesis
  proof (cases "cleanupTimer r0")
    case None
    with Some assms(1)
    have "map_get k (map_set k0 (r0\<lparr>cleanupTimer := Some (next_timer s)\<rparr>) (rooms s)) = Some r'"
      by (simp add: scheduleRoomCleanup_def)
    from round_map_set [OF this assms(2) Some] show ?thesis by simp
  next
    case (Some t)
    with \<open>map_get k0 (rooms s) = Some r0\<close> assms show ?thesis
      by (simp add: scheduleRoomCleanup_def)
  qed
qed

lemma round_disconnect:
  assumes ok: "server_ok s"
    and "map_get k (rooms (fst (disconnect sock s))) = Some r'" "map_get k (rooms s) = Some r"
  shows "round_n r' = round_n r"
  using disconnect_loop_cases [of sock "rooms s" s]
proof (elim disjE exE conjE)
  assume "disconnect_loop sock (rooms s) s = (s, [])"
  with assms show ?thesis by (simp add: disconnect_def)
next
  fix roomId r0 p
  assume mem: "(roomId, r0) \<in> set (rooms s)"
    and eq: "disconnect_loop sock (rooms s) s =
          (let r' = r0\<lparr>players := update_first (\<lambda>p. socketId p = Some sock)
                                   (\<lambda>p. p\<lparr>socketId := None\<rparr>) (players r0)\<rparr>;
               s' = s\<lparr>rooms := map_set roomId r' (rooms s)\<rparr>
           in (if activePlayersCount r' = 0 then scheduleRoomCleanup roomId s' else s',
               [Player_left roomId (playerId p) (nickname p) (symbol p)]))"
  let ?r1 = "r0\<lparr>players := update_first (\<lambda>p. socketId p = Some sock)
                                   (\<lambda>p. p\<lparr>socketId := None\<rparr>) (players r0)\<rparr>"
  let ?s1 = "s\<lparr>rooms := map_set roomId ?r1 (rooms s)\<rparr>"
  from ok mem have get: "map_get roomId (rooms s) = Some r0"
    by (simp add: server_ok_def map_get_distinct)
  have res: "fst (disconnect sock s) =
      (if activePlayersCount ?r1 = 0 then scheduleRoomCleanup roomId ?s1 else ?s1)"
    unfolding disconnect_def eq Let_def by simp
  obtain r1 where r1: "map_get k (rooms ?s1) = Some r1" "round_n r1 = round_n r"
  proof (cases "k = roomId")
    case True
    with get assms(3) have "map_get k (rooms ?s1) = Some ?r1" "round_n ?r1 = round_n r"
      by (simp_all add: map_get_map_set_same)
    then show ?thesis by (rule that)
  next
    case False
    with assms(3) have "map_get k (rooms ?s1) = Some r" "round_n r = round_n r"
      by (simp_all add: map_get_map_set_other)
    then show ?thesis by (rule that)
  qed
  show ?thesis
  proof (cases "activePlayersCount ?r1 = 0")
    case True
    with res assms(2) have "map_get k (rooms (scheduleRoomCleanup roomId ?s1)) = Some r'"
      by simp
    from round_scheduleRoomCleanup [OF this r1(1)] r1(2) show ?thesis by simp
  next
    case False
    with res assms(2) r1 show ?thesis by simp
  qed
qed

lemma round_timer_fire:
  assumes "map_get k (rooms (timer_fire t s)) = Some r'" "map_get k (rooms s) = Some r"
  shows "round_n r' = round_n r"
proof (cases "map_of (timers s) t")
  case None
  with assms show ?thesis by (simp add: timer_fire_def)
next
  case (Some k0)
  note k0 = this
  show ?thesis
  proof (cases "map_get k0 (rooms s)")
    case None
    with k0 assms show ?thesis by (simp add: timer_fire_def cleanup_callback_def)
  next
    case (Some r0)
    show ?thesis
    proof (cases "activePlayersCount r0 = 0")
      case True
      with k0 Some assms(1) have d: "map_get k (map_delete k0 (rooms s)) = Some r'"
        by (simp add: timer_fire_def cleanup_callback_def)
      then have "k \<noteq> k0" by (auto simp: map_get_map_delete_same)
      with d assms(2) show ?thesis by (simp add: map_get_map_delete_other)
    next
      case False
      with k0 Some assms(1)
      have "map_get k (map_set k0 (r0\<lparr>cleanupTimer := None\<rparr>) (rooms s)) = Some r'"
        by (simp add: timer_fire_def cleanup_callback_def)
      from round_map_set [OF this assms(2) Some] show ?thesis by simp
    qed
  qed
qed

text \<open>
  In a reachable state, a step changes the round of a room that is live before and
  after it only when it is a ready-next-round for that room, or a create-room whose
  generated id is the room's (the room is then replaced by a new one, in round 1).
\<close>

lemma round_changes_only_by_ready:
  assumes ok: "reachable s"
    and r: "map_get k (rooms s) = Some r" and r': "map_get k (rooms (fst (step e s))) = Some r'"
    and ch: "round_n r' \<noteq> round_n r"
  shows "(\<exists>sock. e = Ready_next_round sock k)
       \<or> (\<exists>sock nick pid rnd36. e = Create_room sock nick pid rnd36 \<and> generateRoomId rnd36 = k)"
proof (cases e)
  case (Create_room sock nick pid rnd36)
  have "generateRoomId rnd36 = k"
  proof (rule ccontr)
    assume "generateRoomId rnd36 \<noteq> k"
    then have "map_get k (rooms (fst (create_room sock nick pid rnd36 s))) = map_get k (rooms s)"
      by (simp add: create_room_def Let_def map_get_map_set_other)
    with r r' ch Create_room show False by simp
  qed
  with Create_room show ?thesis by blast
next
  case (Join_room sock nick pid roomId)
  show ?thesis
  proof (cases "map_get roomId (rooms s)")
    case None
    with r r' ch Join_room show ?thesis by (simp add: join_room_def)
  next
    case (Some r0)
    show ?thesis
    proof (cases "nick = [] \<or> pid = [] \<or> length (players r0) \<ge> 2")
      case True
      with Some have "fst (join_room sock nick pid roomId s) = s"
        by (auto simp: join_room_def)
      with r r' ch Join_room show ?thesis by simp
    next
      case False
      with Some r' Join_room
      have "map_get k (map_set roomId (r0\<lparr>players := players r0 @
              [\<lparr>socketId = Some sock, playerId = pid, nickname = nick,
                symbol = Mark_O, points = 0\<rparr>]\<rparr>) (rooms s)) = Some r'"
        by (simp add: join_room_def Let_def)
      from round_map_set [OF this r Some] ch show ?thesis by simp
    qed
  qed
next
  case (Rejoin_room sock roomId pid)
  show ?thesis
  proof (cases "map_get roomId (rooms s)")
    case None
    with r r' ch Rejoin_room show ?thesis by (simp add: rejoin_room_def)
  next
    case (Some r0)
    show ?thesis
    proof (cases "find (\<lambda>p. playerId p = pid) (players r0)")
      case None
      with Some r r' ch Rejoin_room show ?thesis by (simp add: rejoin_room_def)
    next
      case (Some p)
      with \<open>map_get roomId (rooms s) = Some r0\<close> r' Rejoin_room
      have "map_get k (map_set roomId
              (r0\<lparr>players := update_first (\<lambda>p. playerId p = pid)
                                (\<lambda>p. p\<lparr>socketId := Some sock\<rparr>) (players r0),
                  cleanupTimer := None\<rparr>) (rooms s)) = Some r'"
        by (simp add: rejoin_room_def Let_def)
      from round_map_set [OF this r \<open>map_get roomId (rooms s) = Some r0\<close>] ch
      show ?thesis by simp
    qed
  qed
next
  case (Make_move sock roomId index)
  from make_move_effect [of sock roomId index s] show ?thesis
  proof (elim disjE exE conjE)
    assume "make_move sock roomId index s = (s, [])"
    with r r' ch Make_move show ?thesis by simp
  next
    fix r0 r0' out
    assume a: "map_get roomId (rooms s) = Some r0" "round_n r0' = round_n r0"
      "make_move sock roomId index s = (s\<lparr>rooms := map_set roomId r0' (rooms s)\<rparr>, out)"
    with r' Make_move have "map_get k (map_set roomId r0' (rooms s)) = Some r'" by simp
    from round_map_set [OF this r a(1,2)] ch show ?thesis by simp
  qed
next
  case (Ready_next_round sock roomId)
  have "roomId = k"
  proof (rule ccontr)
    assume "roomId \<noteq> k"
    then have "map_get k (rooms (fst (ready_next_round sock roomId s))) = map_get k (rooms s)"
      by (simp add: ready_next_round_def Let_def map_get_map_set_other split: option.split)
    with r r' ch Ready_next_round show False by simp
  qed
  with Ready_next_round show ?thesis by blast
next
  case (Reset_scores roomId)
  show ?thesis
  proof (cases "map_get roomId (rooms s)")
    case None
    with r r' ch Reset_scores show ?thesis by (simp add: reset_scores_def)
  next
    case (Some r0)
    with r' Reset_scores
    have "map_get k (map_set roomId (r0\<lparr>players := map (\<lambda>p. p\<lparr>points := 0\<rparr>) (players r0)\<rparr>)
            (rooms s)) = Some r'"
      by (simp add: reset_scores_def Let_def)
    from round_map_set [OF this r Some] ch show ?thesis by simp
  qed
next
  case (Disconnect sock)
  with r' have "map_get k (rooms (fst (disconnect sock s))) = Some r'" by simp
  from round_disconnect [OF reachable_server_ok [OF ok] this r] ch show ?thesis by simp
next
  case (Timeout t)
  with r' have "map_get k (rooms (timer_fire t s)) = Some r'" by simp
  from round_timer_fire [OF this r] ch show ?thesis by simp
qed

subsection \<open>Rejoin\<close>

text \<open>
  Claim C7, as the code has it. Rejoin with a playerId that matches a seat rewrites the
  connection identifier of that seat (the first seat with this playerId) and nothing
  else of the seats: no seat is added, and mark, points, playerId and nickname stay.
  Board, round, currentTurn and readySet stay, and no other room changes. The handler
  cancels the timeout recorded in the room's \<open>cleanupTimer\<close> and clears the field; in a
  run that has created no room under an id with a pending cleanup action this is the
  room's only pending cleanup action, and none is left. With an unknown room or an
  unmatched playerId it replies Room not found / Seat not found and the state is
  unchanged.
\<close>

theorem rejoin_room_frame:
  assumes "rejoin_room sock roomId pid s = (s', out)"
  shows "case map_get roomId (rooms s) of
      None \<Rightarrow> s' = s \<and> out = [Reply_failure ''Room not found'']
    | Some r \<Rightarrow>
       (case find (\<lambda>p. playerId p = pid) (players r) of
          None \<Rightarrow> s' = s \<and> out = [Reply_failure ''Seat not found'']
        | Some p \<Rightarrow>
            (\<exists>k r'. k < length (players r) \<and> players r ! k = p
               \<and> (\<forall>j<k. playerId (players r ! j) \<noteq> pid)
               \<and> map_get roomId (rooms s') = Some r'
               \<and> players r' = (players r)[k := p\<lparr>socketId := Some sock\<rparr>]
               \<and> length (players r') = length (players r)
               \<and> symbol (players r' ! k) = symbol p \<and> points (players r' ! k) = points p
               \<and> board r' = board r \<and> round_n r' = round_n r
               \<and> currentTurn r' = currentTurn r \<and> readySet r' = readySet r
               \<and> cleanupTimer r' = None
               \<and> timers s' = clearTimeout (cleanupTimer r) (timers s)
               \<and> (\<forall>t. cleanupTimer r = Some t \<longrightarrow> t \<notin> fst ` set (timers s'))
               \<and> (\<forall>k'. k' \<noteq> roomId \<longrightarrow> map_get k' (rooms s') = map_get k' (rooms s))
               \<and> map fst (rooms s') = map fst (rooms s)
               \<and> next_timer s' = next_timer s
               \<and> out = [Reply_snapshot (roomSnapshot roomId (rooms s'))]
               \<and> (reachable_fresh s \<longrightarrow> pending_for roomId s' = [])))"
proof (cases "map_get roomId (rooms s)")
  case None
  with assms show ?thesis by (simp add: rejoin_room_def)
next
  case (Some r)
  note r = this
  show ?thesis
  proof (cases "find (\<lambda>p. playerId p = pid) (players r)")
    case None
    with assms r show ?thesis by (simp add: rejoin_room_def)
  next
    case (Some p)
    from find_update_first [OF Some, of "\<lambda>p. p\<lparr>socketId := Some sock\<rparr>"]
    obtain k where k: "k < length (players r)" "players r ! k = p"
        "\<forall>j<k. playerId (players r ! j) \<noteq> pid"
        "update_first (\<lambda>p. playerId p = pid) (\<lambda>p. p\<lparr>socketId := Some sock\<rparr>) (players r)
           = (players r)[k := p\<lparr>socketId := Some sock\<rparr>]"
      by blast
    let ?r' = "r\<lparr>players := (players r)[k := p\<lparr>socketId := Some sock\<rparr>], cleanupTimer := None\<rparr>"
    from assms r Some k(4)
    have s': "s' = s\<lparr>rooms := map_set roomId ?r' (rooms s),
                     timers := clearTimeout (cleanupTimer r) (timers s)\<rparr>"
      and out: "out = [Reply_snapshot (roomSnapshot roomId (map_set roomId ?r' (rooms s)))]"
      by (simp_all add: rejoin_room_def Let_def)
    have get: "map_get roomId (rooms s') = Some ?r'"
      by (simp add: s' map_get_map_set_same)
    have others: "\<forall>k'. k' \<noteq> roomId \<longrightarrow> map_get k' (rooms s') = map_get k' (rooms s)"
      by (simp add: s' map_get_map_set_other)
    have keys: "map fst (rooms s') = map fst (rooms s)"
      using r by (simp add: s' map_set_keys_present)
    have tm: "timers s' = clearTimeout (cleanupTimer r) (timers s)"
      "next_timer s' = next_timer s"
      by (simp_all add: s')
    have gone: "\<forall>t. cleanupTimer r = Some t \<longrightarrow> t \<notin> fst ` set (timers s')"
      by (auto simp: s' clearTimeout_def)
    have out': "out = [Reply_snapshot (roomSnapshot roomId (rooms s'))]"
      by (simp add: out s')
    have fields: "players ?r' = (players r)[k := p\<lparr>socketId := Some sock\<rparr>]"
      "length (players ?r') = length (players r)"
      "symbol (players ?r' ! k) = symbol p" "points (players ?r' ! k) = points p"
      "board ?r' = board r" "round_n ?r' = round_n r"
      "currentTurn ?r' = currentTurn r" "readySet ?r' = readySet r"
      "cleanupTimer ?r' = None"
      using k(1) by simp_all
    have fresh: "reachable_fresh s \<longrightarrow> pending_for roomId s' = []"
    proof
      assume "reachable_fresh s"
      then have "timers_ok s" by (rule reachable_fresh_timers_ok)
      from pending_for_cancel [OF this r] tm(1) show "pending_for roomId s' = []"
        by (simp add: pending_for_def)
    qed
    from k(1,2,3) get fields tm gone others keys out' fresh
    have "\<exists>k r'. k < length (players r) \<and> players r ! k = p
               \<and> (\<forall>j<k. playerId (players r ! j) \<noteq> pid)
               \<and> map_get roomId (rooms s') = Some r'
               \<and> players r' = (players r)[k := p\<lparr>socketId := Some sock\<rparr>]
               \<and> length (players r') = length (players r)
               \<and> symbol (players r' ! k) = symbol p \<and> points (players r' ! k) = points p
               \<and> board r' = board r \<and> round_n r' = round_n r
               \<and> currentTurn r' = currentTurn r \<and> readySet r' = readySet r
               \<and> cleanupTimer r' = None
               \<and> timers s' = clearTimeout (cleanupTimer r) (timers s)
               \<and> (\<forall>t. cleanupTimer r = Some t \<longrightarrow> t \<notin> fst ` set (timers s'))
               \<and> (\<forall>k'. k' \<noteq> roomId \<longrightarrow> map_get k' (rooms s') = map_get k' (rooms s))
               \<and> map fst (rooms s') = map fst (rooms s)
               \<and> next_timer s' = next_timer s
               \<and> out = [Reply_snapshot (roomSnapshot roomId (rooms s'))]
               \<and> (reachable_fresh s \<longrightarrow> pending_for roomId s' = [])"
      by blast
    with r Some show ?thesis by simp
  qed
qed

theorem rejoin_room_frame_witness:
  "timers vacated = [(0, ''00BE29'')]
   \<and> rejoin_room ''s3'' ''00BE29'' ''p1'' vacated =
     (\<lparr>rooms =
        [(''00BE29'',
          \<lparr>players =
             [\<lparr>socketId = Some ''s3'', playerId = ''p1'', nickname = ''A'',
                symbol = Mark_X, points = 1\<rparr>,
              \<lparr>socketId = None, playerId = ''p2'', nickname = ''B'',
                symbol = Mark_O, points = 0\<rparr>],
             board = [Some Mark_X, Some Mark_X, Some Mark_X, Some Mark_O, Some Mark_O,
                      None, None, None, None],
             currentTurn = Mark_O, round_n = 1, readySet = [], cleanupTimer = None\<rparr>)],
        timers = [], next_timer = 1\<rparr>,
      [Reply_snapshot (Some
         \<lparr>snap_roomId = ''00BE29'', snap_round = 1, snap_currentTurn = Mark_O,
            snap_board = [Some Mark_X, Some Mark_X, Some Mark_X, Some Mark_O, Some Mark_O,
                          None, None, None, None],
            snap_players =
              [\<lparr>socketId = Some ''s3'', playerId = ''p1'', nickname = ''A'',
                 symbol = Mark_X, points = 1\<rparr>,
               \<lparr>socketId = None, playerId = ''p2'', nickname = ''B'',
                 symbol = Mark_O, points = 0\<rparr>]\<rparr>)])
   \<and> map fst (rooms (fst (rejoin_room ''s3'' ''00BE29'' ''p1'' vacated))) = map fst (rooms vacated)
   \<and> reachable_fresh vacated
   \<and> pending_for ''00BE29'' (fst (rejoin_room ''s3'' ''00BE29'' ''p1'' vacated)) = []"
proof -
  let ?res = "rejoin_room ''s3'' ''00BE29'' ''p1'' vacated"
  let ?r0 = "\<lparr>players =
             [\<lparr>socketId = None, playerId = ''p1'', nickname = ''A'',
                symbol = Mark_X, points = 1\<rparr>,
              \<lparr>socketId = None, playerId = ''p2'', nickname = ''B'',
                symbol = Mark_O, points = 0\<rparr>],
             board = [Some Mark_X, Some Mark_X, Some Mark_X, Some Mark_O, Some Mark_O,
                      None, None, None, None],
             currentTurn = Mark_O, round_n = 1, readySet = [], cleanupTimer = Some 0\<rparr>"
  have t: "timers vacated = [(0, ''00BE29'')]"
    by code_simp
  have r0: "map_get ''00BE29'' (rooms vacated) = Some ?r0"
    by code_simp
  have e: "?res = (fst ?res, snd ?res)"
    by simp
  have val: "?res =
     (\<lparr>rooms =
        [(''00BE29'',
          \<lparr>players =
             [\<lparr>socketId = Some ''s3'', playerId = ''p1'', nickname = ''A'',
                symbol = Mark_X, points = 1\<rparr>,
              \<lparr>socketId = None, playerId = ''p2'', nickname = ''B'',
                symbol = Mark_O, points = 0\<rparr>],
             board = [Some Mark_X, Some Mark_X, Some Mark_X, Some Mark_O, Some Mark_O,
                      None, None, None, None],
             currentTurn = Mark_O, round_n = 1, readySet = [], cleanupTimer = None\<rparr>)],
        timers = [], next_timer = 1\<rparr>,
      [Reply_snapshot (Some
         \<lparr>snap_roomId = ''00BE29'', snap_round = 1, snap_currentTurn = Mark_O,
            snap_board = [Some Mark_X, Some Mark_X, Some Mark_X, Some Mark_O, Some Mark_O,
                          None, None, None, None],
            snap_players =
              [\<lparr>socketId = Some ''s3'', playerId = ''p1'', nickname = ''A'',
                 symbol = Mark_X, points = 1\<rparr>,
               \<lparr>socketId = None, playerId = ''p2'', nickname = ''B'',
                 symbol = Mark_O, points = 0\<rparr>]\<rparr>)])"
    by code_simp
  have fr: "fresh_run (won_game @ [Disconnect ''s1'', Disconnect ''s2'']) init_server"
    by code_simp
  have re: "reachable_fresh vacated"
    unfolding vacated_def using reachable_fresh_init fr by (rule reachable_fresh_run)
  from rejoin_room_frame [OF e] r0
  have "map fst (rooms (fst ?res)) = map fst (rooms vacated)"
    by auto
  moreover from rejoin_room_frame [OF e] r0 re
  have "pending_for ''00BE29'' (fst ?res) = []"
    by auto
  ultimately show ?thesis using t val re by simp
qed

text \<open>
  After socket s2 has created a room under the id of the vacated room 00BE29 and closed,
  two timeouts are pending for the id. The rejoin of the second player cancels the one in
  the room's \<open>cleanupTimer\<close>; the timeout armed for the first room stays pending. When
  the player closes again and that timeout fires, the room is deleted.
\<close>

theorem rejoin_leaves_pending_counterexample:
  "reachable (fst (run reused_id init_server))
   \<and> pending_for ''00BE29'' (fst (run reused_id init_server)) =
       [(0, ''00BE29''), (1, ''00BE29'')]
   \<and> rejoin_room ''s3'' ''00BE29'' ''p2'' (fst (run reused_id init_server)) =
       (\<lparr>rooms = [(''00BE29'',
                   \<lparr>players = [\<lparr>socketId = Some ''s3'', playerId = ''p2'', nickname = ''B'',
                                 symbol = Mark_X, points = 0\<rparr>],
                      board = replicate 9 None, currentTurn = Mark_X, round_n = 1,
                      readySet = [], cleanupTimer = None\<rparr>)],
          timers = [(0, ''00BE29'')], next_timer = 2\<rparr>,
        [Reply_snapshot (Some
           \<lparr>snap_roomId = ''00BE29'', snap_round = 1, snap_currentTurn = Mark_X,
              snap_board = replicate 9 None,
              snap_players = [\<lparr>socketId = Some ''s3'', playerId = ''p2'', nickname = ''B'',
                                symbol = Mark_X, points = 0\<rparr>]\<rparr>)])
   \<and> pending_for ''00BE29''
         (fst (rejoin_room ''s3'' ''00BE29'' ''p2'' (fst (run reused_id init_server)))) =
       [(0, ''00BE29'')]
   \<and> map_get ''00BE29'' (rooms (fst (run rejoin_after_reuse init_server))) = None"
proof -
  have a: "reachable (fst (run reused_id init_server))"
    by (intro reachable_run reachable_init)
  have b: "pending_for ''00BE29'' (fst (run reused_id init_server)) =
       [(0, ''00BE29''), (1, ''00BE29'')]"
    by code_simp
  have c: "rejoin_room ''s3'' ''00BE29'' ''p2'' (fst (run reused_id init_server)) =
       (\<lparr>rooms = [(''00BE29'',
                   \<lparr>players = [\<lparr>socketId = Some ''s3'', playerId = ''p2'', nickname = ''B'',
                                 symbol = Mark_X, points = 0\<rparr>],
                      board = replicate 9 None, currentTurn = Mark_X, round_n = 1,
                      readySet = [], cleanupTimer = None\<rparr>)],
          timers = [(0, ''00BE29'')], next_timer = 2\<rparr>,
        [Reply_snapshot (Some
           \<lparr>snap_roomId = ''00BE29'', snap_round = 1, snap_currentTurn = Mark_X,
              snap_board = replicate 9 None,
              snap_players = [\<lparr>socketId = Some ''s3'', playerId = ''p2'', nickname = ''B'',
                                symbol = Mark_X, points = 0\<rparr>]\<rparr>)])"
    by code_simp
  have d: "pending_for ''00BE29''
         (fst (rejoin_room ''s3'' ''00BE29'' ''p2'' (fst (run reused_id init_server)))) =
       [(0, ''00BE29'')]"
    by code_simp
  have e: "map_get ''00BE29'' (rooms (fst (run rejoin_after_reuse init_server))) = None"
    by code_simp
  from a b c d e show ?thesis by (intro conjI)
qed

end
